theory Spec2Isabelle
  imports Main
begin

unbundle bit_operations_syntax

section \<open>zmq.green.core: the green socket\<close>

text \<open>
  The module subclasses the transport's socket so that \<^verbatim>\<open>send\<close> and \<^verbatim>\<open>recv\<close> suspend
  only the calling greenlet. The embedding below follows \<^verbatim>\<open>src/zmq/green/core.py\<close>
  method by method: the object's attributes are the fields of a record, every method takes
  the object and returns it updated, and an exception is a value (\<open>Inl\<close>) of the result.
\<close>

subsection \<open>Constants of the transport library\<close>

text \<open>
  The module reads \<^verbatim>\<open>zmq.NOBLOCK\<close>, \<^verbatim>\<open>zmq.POLLIN\<close>, \<^verbatim>\<open>zmq.POLLOUT\<close>, \<^verbatim>\<open>zmq.EVENTS\<close>,
  \<^verbatim>\<open>zmq.EAGAIN\<close> and \<^verbatim>\<open>FD\<close> from the \<^verbatim>\<open>zmq\<close> package, whose values are not part of
  the sources. They are a parameter \<open>zmq\<close> of every method; \<open>zmq_h\<close> holds the values
  of libzmq's header on Linux, for concrete runs.
\<close>

record zmq_consts =
  NOBLOCK :: int
  POLLIN :: int
  POLLOUT :: int
  EVENTS :: int
  FD :: int
  EAGAIN :: int

definition zmq_h :: zmq_consts where
  "zmq_h = \<lparr>NOBLOCK = 1, POLLIN = 1, POLLOUT = 2, EVENTS = 15, FD = 14, EAGAIN = 11\<rparr>"

subsection \<open>Exceptions, readiness cells, the native layer\<close>

text \<open>
  The exceptions that travel through the module: the transport's \<^verbatim>\<open>ZMQError\<close> with its
  \<^verbatim>\<open>errno\<close>, the scheduler's \<^verbatim>\<open>gevent.Timeout\<close> and \<^verbatim>\<open>GreenletExit\<close> (a killed
  greenlet), the \<^verbatim>\<open>AssertionError\<close> of a failed \<^verbatim>\<open>assert\<close>, and \<^verbatim>\<open>IndexError\<close>.
\<close>

datatype exc = ZMQError int | Timeout | GreenletExit | AssertionError | IndexError

text \<open>
  A \<^verbatim>\<open>gevent.event.AsyncResult\<close>: fresh it is \<open>Pending\<close>; \<^verbatim>\<open>set()\<close> stores a value
  (\<open>Value\<close>), \<^verbatim>\<open>set_exception(exc)\<close> stores an exception; \<^verbatim>\<open>ready()\<close> holds once either
  was stored.
\<close>

datatype cell = Pending | Value | Exception exc

definition AsyncResult :: cell where
  "AsyncResult = Pending"

definition set_value :: "cell \<Rightarrow> cell" where
  "set_value c = Value"

definition set_exception :: "exc \<Rightarrow> cell \<Rightarrow> cell" where
  "set_exception e c = Exception e"

definition ready :: "cell \<Rightarrow> bool" where
  "ready c = (c \<noteq> Pending)"

text \<open>
  What a call of the base class (\<^verbatim>\<open>super(_Socket, self)\<close>) does is the environment's
  choice: it returns an object or raises \<^verbatim>\<open>ZMQError\<close> with some \<^verbatim>\<open>errno\<close>.
\<close>

type_synonym msg = string

datatype 'a outcome = Return 'a | Raise int

text \<open>The native calls the adapter issues, with their arguments, in order (a ghost log).\<close>

datatype call = Send string int bool bool | Recv int bool bool | Getsockopt int

text \<open>
  What the hub does while a greenlet is parked: one unit of time passes (\<open>Tick\<close>), the
  watcher on the socket's file descriptor runs its callback (\<open>Fire\<close>), or an exception is
  raised into the parked greenlet from outside (\<open>Throw\<close>: an enclosing
  \<^verbatim>\<open>gevent.Timeout\<close> that expires, a \<^verbatim>\<open>kill\<close>).
\<close>

datatype hub_event = Tick | Fire | Throw exc

subsection \<open>The socket object\<close>

text \<open>
  \<open>closed\<close> is the base class's attribute; the next five fields are the attributes the
  module assigns. The rest is the environment and ghost state:
  \<^item> \<open>send_results\<close>, \<open>recv_results\<close>: the outcome of the next, second next, ... native
    \<^verbatim>\<open>send\<close> and \<^verbatim>\<open>recv\<close>;
  \<^item> \<open>getsockopt_results opt\<close>: the same for the native \<^verbatim>\<open>getsockopt(opt)\<close>;
  \<^item> \<open>hub\<close>: the events the hub will deliver, in order, while a greenlet of this socket is
    parked; when it is exhausted the parked greenlet is never resumed;
  \<^item> \<open>calls\<close>: the native calls issued so far;
  \<^item> \<open>state_changes\<close>: how often \<^verbatim>\<open>__state_changed\<close> was entered;
  \<^item> \<open>pulses\<close>: how often the watcher ran its callback.
\<close>

record socket =
  closed :: bool
  in_send_multipart :: bool
  in_recv_multipart :: bool
  readable :: cell
  writable :: cell
  state_event :: "int option"
  send_results :: "nat \<Rightarrow> msg outcome"
  recv_results :: "nat \<Rightarrow> msg outcome"
  getsockopt_results :: "int \<Rightarrow> nat \<Rightarrow> int outcome"
  hub :: "hub_event list"
  calls :: "call list"
  state_changes :: nat
  pulses :: nat

text \<open>
  The readiness re-checks: the entries into \<^verbatim>\<open>__state_changed\<close> that the adapter's own
  methods made, that is, all entries but the watcher's.
\<close>

definition rechecks :: "socket \<Rightarrow> int" where
  "rechecks s = int (state_changes s) - int (pulses s)"

definition native_send :: "string \<Rightarrow> int \<Rightarrow> bool \<Rightarrow> bool \<Rightarrow> socket \<Rightarrow> msg outcome \<times> socket" where
  "native_send data flags copy track s =
     (send_results s 0,
      s\<lparr>send_results := (\<lambda>n. send_results s (Suc n)),
        calls := calls s @ [Send data flags copy track]\<rparr>)"

definition native_recv :: "int \<Rightarrow> bool \<Rightarrow> bool \<Rightarrow> socket \<Rightarrow> msg outcome \<times> socket" where
  "native_recv flags copy track s =
     (recv_results s 0,
      s\<lparr>recv_results := (\<lambda>n. recv_results s (Suc n)),
        calls := calls s @ [Recv flags copy track]\<rparr>)"

definition native_getsockopt :: "int \<Rightarrow> socket \<Rightarrow> int outcome \<times> socket" where
  "native_getsockopt opt s =
     (getsockopt_results s opt 0,
      s\<lparr>getsockopt_results := (getsockopt_results s)(opt := (\<lambda>n. getsockopt_results s opt (Suc n))),
        calls := calls s @ [Getsockopt opt]\<rparr>)"

subsection \<open>The readiness callback\<close>

text \<open>
  \<^verbatim>\<open>_Socket.__state_changed\<close> (lines 78-94). The event-state query goes to the base
  class's \<^verbatim>\<open>getsockopt\<close>, not to the override below.
\<close>

definition state_changed :: "zmq_consts \<Rightarrow> socket \<Rightarrow> socket" where
  "state_changed zmq s0 =
     (let s = s0\<lparr>state_changes := state_changes s0 + 1\<rparr> in
      if closed s then
        (let s1 = s\<lparr>writable := set_value (writable s)\<rparr> in
         s1\<lparr>readable := set_value (readable s1)\<rparr>)
      else
        (case native_getsockopt (EVENTS zmq) s of
           (Raise e, s1) \<Rightarrow>
             (let s2 = s1\<lparr>writable := set_exception (ZMQError e) (writable s1)\<rparr> in
              s2\<lparr>readable := set_exception (ZMQError e) (readable s2)\<rparr>)
         | (Return events, s1) \<Rightarrow>
             (let s2 = (if events AND POLLOUT zmq \<noteq> 0
                        then s1\<lparr>writable := set_value (writable s1)\<rparr> else s1) in
              if events AND POLLIN zmq \<noteq> 0
              then s2\<lparr>readable := set_value (readable s2)\<rparr> else s2)))"

subsection \<open>Waiting on a cell\<close>

text \<open>
  \<^verbatim>\<open>AsyncResult.get(timeout)\<close> on the readable or the writable cell of the socket, by the
  scheduler's contract: a settled cell answers at once (its value, or its exception
  raised); a pending one parks the caller, the hub delivers its events, and the caller is
  resumed when the cell is settled, or, with a timeout, when that much time has passed
  (\<^verbatim>\<open>gevent.Timeout\<close> is raised), or when an exception is raised into it from outside:
  that exception comes out of \<^verbatim>\<open>get\<close> and the cell stays as it is. The watcher's
  callback is \<^verbatim>\<open>__state_changed\<close> (line 72). Time is counted in the hub's \<open>Tick\<close>
  events, so \<^verbatim>\<open>timeout=1\<close> expires at the first of them; \<open>None\<close> as a result says that
  the hub's events ran out with the cell still pending: the caller stays parked. The
  scheduler is not part of the repository; what
  is modelled of it is this primitive, the timer, the watcher and the exception raised into
  a parked greenlet.
\<close>

datatype direction = Readable | Writable

definition cell_of :: "direction \<Rightarrow> socket \<Rightarrow> cell" where
  "cell_of d s = (case d of Readable \<Rightarrow> readable s | Writable \<Rightarrow> writable s)"

function get :: "zmq_consts \<Rightarrow> direction \<Rightarrow> nat option \<Rightarrow> socket \<Rightarrow> ((exc + unit) \<times> socket) option" where
  "get zmq d timeout s =
     (case cell_of d s of
        Value \<Rightarrow> Some (Inr (), s)
      | Exception e \<Rightarrow> Some (Inl e, s)
      | Pending \<Rightarrow>
          (case hub s of
             [] \<Rightarrow> None
           | Fire # h \<Rightarrow> get zmq d timeout (state_changed zmq (s\<lparr>hub := h, pulses := pulses s + 1\<rparr>))
           | Throw e # h \<Rightarrow> Some (Inl e, s\<lparr>hub := h\<rparr>)
           | Tick # h \<Rightarrow>
               (case timeout of
                  None \<Rightarrow> get zmq d None (s\<lparr>hub := h\<rparr>)
                | Some t \<Rightarrow>
                    if t \<le> 1 then Some (Inl Timeout, s\<lparr>hub := h\<rparr>)
                    else get zmq d (Some (t - 1)) (s\<lparr>hub := h\<rparr>))))"
  by pat_completeness auto

termination
proof (relation "measure (\<lambda>(zmq, d, timeout, s). length (hub s))")
  show "wf (measure (\<lambda>(zmq, d, timeout, s). length (hub s)))"
    by simp
next
  fix zmq :: zmq_consts and d :: direction and timeout :: "nat option" and s :: socket
    and x21 :: hub_event and h :: "hub_event list"
  assume "hub s = x21 # h"
  then show "((zmq, d, timeout, state_changed zmq (s\<lparr>hub := h, pulses := pulses s + 1\<rparr>)),
              (zmq, d, timeout, s)) \<in> measure (\<lambda>(zmq, d, timeout, s). length (hub s))"
    by (simp add: state_changed_def native_getsockopt_def Let_def split: outcome.split)
next
  fix zmq :: zmq_consts and d :: direction and timeout :: "nat option" and s :: socket
    and x21 :: hub_event and h :: "hub_event list"
  assume "hub s = x21 # h"
  then show "((zmq, d, None, s\<lparr>hub := h\<rparr>), (zmq, d, timeout, s))
              \<in> measure (\<lambda>(zmq, d, timeout, s). length (hub s))"
    by simp
next
  fix zmq :: zmq_consts and d :: direction and timeout :: "nat option" and s :: socket
    and x21 :: hub_event and h :: "hub_event list" and t :: nat
  assume "hub s = x21 # h"
  then show "((zmq, d, Some (t - 1), s\<lparr>hub := h\<rparr>), (zmq, d, timeout, s))
              \<in> measure (\<lambda>(zmq, d, timeout, s). length (hub s))"
    by simp
qed

declare get.simps [simp del]

text \<open>\<^verbatim>\<open>_Socket._wait_write\<close> (lines 96-104) and \<^verbatim>\<open>_Socket._wait_read\<close> (lines 106-109).\<close>

definition wait_write :: "zmq_consts \<Rightarrow> socket \<Rightarrow> ((exc + unit) \<times> socket) option" where
  "wait_write zmq s =
     (if \<not> ready (writable s) then Some (Inl AssertionError, s)
      else
        (case get zmq Writable (Some 1) (s\<lparr>writable := AsyncResult\<rparr>) of
           None \<Rightarrow> None
         | Some (Inl Timeout, s1) \<Rightarrow> Some (Inr (), s1\<lparr>writable := set_value (writable s1)\<rparr>)
         | Some (r, s1) \<Rightarrow> Some (r, s1)))"

definition wait_read :: "zmq_consts \<Rightarrow> socket \<Rightarrow> ((exc + unit) \<times> socket) option" where
  "wait_read zmq s =
     (if \<not> ready (readable s) then Some (Inl AssertionError, s)
      else get zmq Readable None (s\<lparr>readable := AsyncResult\<rparr>))"

subsection \<open>Single-frame send and recv\<close>

text \<open>
  \<^verbatim>\<open>_Socket.send\<close> (lines 111-143). \<open>send_loop\<close> is the \<^verbatim>\<open>while True\<close> of lines 128-143,
  entered with \<^verbatim>\<open>zmq.NOBLOCK\<close> already part of \<open>flags\<close>; it returns \<open>None\<close> when the
  greenlet is parked and the hub never resumes it.
\<close>

function send_loop :: "zmq_consts \<Rightarrow> string \<Rightarrow> int \<Rightarrow> bool \<Rightarrow> bool \<Rightarrow> socket \<Rightarrow> ((exc + msg) \<times> socket) option" where
  "send_loop zmq data flags copy track s =
     (case native_send data flags copy track s of
        (Raise e, s1) \<Rightarrow>
          if e \<noteq> EAGAIN zmq then
            Some (Inl (ZMQError e),
                  if \<not> in_send_multipart s1 then state_changed zmq s1 else s1)
          else
            (case wait_write zmq s1 of
               None \<Rightarrow> None
             | Some (Inl x, s2) \<Rightarrow> Some (Inl x, s2)
             | Some (Inr u, s2) \<Rightarrow> send_loop zmq data flags copy track s2)
      | (Return msg, s1) \<Rightarrow>
          Some (Inr msg, if \<not> in_send_multipart s1 then state_changed zmq s1 else s1))"
  by pat_completeness auto
termination
proof (relation "measure (\<lambda>(zmq, data, flags, copy, track, s). length (hub s))")
  show "wf (measure (\<lambda>(zmq, data, flags, copy, track, s). length (hub s)))"
    by simp
next
  fix zmq data flags copy track s x y x2 x2a xa ya b
  assume call: "(x, y) = native_send data flags copy track s"
    and wait: "wait_write zmq y = Some x2a" "(xa, ya) = x2a" "xa = Inr b"
  have changed: "hub (state_changed zmq t) = hub t" for t
    by (simp add: state_changed_def native_getsockopt_def Let_def split: outcome.split)
  have le: "hub t = h \<Longrightarrow> get zmq d timeout t = Some (r, t') \<Longrightarrow> length (hub t') \<le> length h"
    for d timeout t r t' h
  proof (induction h arbitrary: t timeout)
    case Nil
    then show ?case
      by (subst (asm) get.simps) (auto split: cell.splits)
  next
    case (Cons ev h)
    note IH = Cons.IH [THEN le_SucI, rotated]
    from Cons.prems show ?case
      by (subst (asm) get.simps)
         (auto simp: changed split: cell.splits hub_event.splits option.splits if_splits
            elim: IH)
  qed
  have less: "length (hub t') < length (hub t)"
    if "get zmq d timeout t = Some (r, t')" "cell_of d t = Pending" for d timeout t r t'
    using that
    by (subst (asm) get.simps)
       (auto simp: changed split: list.splits hub_event.splits option.splits if_splits
          dest!: le [OF refl])
  from wait have "length (hub ya) < length (hub y)"
    by (auto simp: wait_write_def cell_of_def AsyncResult_def
          split: if_splits option.splits sum.splits exc.splits dest!: less)
  moreover from call have "hub y = hub s"
    by (simp add: native_send_def)
  ultimately show "((zmq, data, flags, copy, track, ya), (zmq, data, flags, copy, track, s))
      \<in> measure (\<lambda>(zmq, data, flags, copy, track, s). length (hub s))"
    by simp
qed

declare send_loop.simps [simp del]

definition send :: "zmq_consts \<Rightarrow> string \<Rightarrow> int \<Rightarrow> bool \<Rightarrow> bool \<Rightarrow> socket \<Rightarrow> ((exc + msg) \<times> socket) option" where
  "send zmq data flags copy track s =
     (if flags AND NOBLOCK zmq \<noteq> 0 then
        (case native_send data flags copy track s of
           (r, s1) \<Rightarrow>
             (let s2 = (if \<not> in_send_multipart s1 then state_changed zmq s1 else s1) in
              Some (case r of Return msg \<Rightarrow> Inr msg | Raise e \<Rightarrow> Inl (ZMQError e), s2)))
      else send_loop zmq data (flags OR NOBLOCK zmq) copy track s)"

text \<open>\<^verbatim>\<open>_Socket.recv\<close> (lines 145-172), with \<open>recv_loop\<close> the loop of lines 160-172.\<close>

function recv_loop :: "zmq_consts \<Rightarrow> int \<Rightarrow> bool \<Rightarrow> bool \<Rightarrow> socket \<Rightarrow> ((exc + msg) \<times> socket) option" where
  "recv_loop zmq flags copy track s =
     (case native_recv flags copy track s of
        (Raise e, s1) \<Rightarrow>
          if e \<noteq> EAGAIN zmq then
            Some (Inl (ZMQError e),
                  if \<not> in_recv_multipart s1 then state_changed zmq s1 else s1)
          else
            (case wait_read zmq s1 of
               None \<Rightarrow> None
             | Some (Inl x, s2) \<Rightarrow> Some (Inl x, s2)
             | Some (Inr u, s2) \<Rightarrow> recv_loop zmq flags copy track s2)
      | (Return msg, s1) \<Rightarrow>
          Some (Inr msg, if \<not> in_recv_multipart s1 then state_changed zmq s1 else s1))"
  by pat_completeness auto
termination
proof (relation "measure (\<lambda>(zmq, flags, copy, track, s). length (hub s))")
  show "wf (measure (\<lambda>(zmq, flags, copy, track, s). length (hub s)))"
    by simp
next
  fix zmq flags copy track s x y x2 x2a xa ya b
  assume call: "(x, y) = native_recv flags copy track s"
    and wait: "wait_read zmq y = Some x2a" "(xa, ya) = x2a" "xa = Inr b"
  have changed: "hub (state_changed zmq t) = hub t" for t
    by (simp add: state_changed_def native_getsockopt_def Let_def split: outcome.split)
  have le: "hub t = h \<Longrightarrow> get zmq d timeout t = Some (r, t') \<Longrightarrow> length (hub t') \<le> length h"
    for d timeout t r t' h
  proof (induction h arbitrary: t timeout)
    case Nil
    then show ?case
      by (subst (asm) get.simps) (auto split: cell.splits)
  next
    case (Cons ev h)
    note IH = Cons.IH [THEN le_SucI, rotated]
    from Cons.prems show ?case
      by (subst (asm) get.simps)
         (auto simp: changed split: cell.splits hub_event.splits option.splits if_splits
            elim: IH)
  qed
  have less: "length (hub t') < length (hub t)"
    if "get zmq d timeout t = Some (r, t')" "cell_of d t = Pending" for d timeout t r t'
    using that
    by (subst (asm) get.simps)
       (auto simp: changed split: list.splits hub_event.splits option.splits if_splits
          dest!: le [OF refl])
  from wait have "length (hub ya) < length (hub y)"
    by (auto simp: wait_read_def cell_of_def AsyncResult_def
          split: if_splits option.splits sum.splits exc.splits dest!: less)
  moreover from call have "hub y = hub s"
    by (simp add: native_recv_def)
  ultimately show "((zmq, flags, copy, track, ya), (zmq, flags, copy, track, s))
      \<in> measure (\<lambda>(zmq, flags, copy, track, s). length (hub s))"
    by simp
qed

declare recv_loop.simps [simp del]

definition recv :: "zmq_consts \<Rightarrow> int \<Rightarrow> bool \<Rightarrow> bool \<Rightarrow> socket \<Rightarrow> ((exc + msg) \<times> socket) option" where
  "recv zmq flags copy track s =
     (if flags AND NOBLOCK zmq \<noteq> 0 then
        (case native_recv flags copy track s of
           (r, s1) \<Rightarrow>
             (let s2 = (if \<not> in_recv_multipart s1 then state_changed zmq s1 else s1) in
              Some (case r of Return msg \<Rightarrow> Inr msg | Raise e \<Rightarrow> Inl (ZMQError e), s2)))
      else recv_loop zmq (flags OR NOBLOCK zmq) copy track s)"

subsection \<open>Multi-frame send and recv\<close>





subsection \<open>getsockopt and construction\<close>

text \<open>\<^verbatim>\<open>_Socket.getsockopt\<close> (lines 194-199).\<close>

definition getsockopt :: "zmq_consts \<Rightarrow> int \<Rightarrow> socket \<Rightarrow> (exc + int) \<times> socket" where
  "getsockopt zmq opt s =
     (case native_getsockopt opt s of
        (Raise e, s1) \<Rightarrow> (Inl (ZMQError e), s1)
      | (Return optval, s1) \<Rightarrow>
          (Inr optval, if opt = EVENTS zmq then state_changed zmq s1 else s1))"

text \<open>
  \<^verbatim>\<open>_Socket.__setup_events\<close> (lines 64-76) and \<^verbatim>\<open>_Socket.__init__\<close> (lines 53-56). Both
  branches of the \<^verbatim>\<open>try\<close> read the descriptor with one \<^verbatim>\<open>self.getsockopt(FD)\<close> and
  start a watcher on it with \<^verbatim>\<open>__state_changed\<close> as its callback.
\<close>

definition setup_events :: "zmq_consts \<Rightarrow> socket \<Rightarrow> (exc + unit) \<times> socket" where
  "setup_events zmq s =
     (let s1 = s\<lparr>readable := AsyncResult\<rparr>;
          s2 = s1\<lparr>writable := AsyncResult\<rparr>;
          s3 = s2\<lparr>readable := set_value (readable s2)\<rparr>;
          s4 = s3\<lparr>writable := set_value (writable s3)\<rparr>
      in case getsockopt zmq (FD zmq) s4 of
           (Inl e, s5) \<Rightarrow> (Inl e, s5)
         | (Inr fd, s5) \<Rightarrow> (Inr (), s5\<lparr>state_event := Some fd\<rparr>))"

definition init :: "zmq_consts \<Rightarrow> socket \<Rightarrow> (exc + unit) \<times> socket" where
  "init zmq s =
     (let s1 = s\<lparr>in_send_multipart := False\<rparr>;
          s2 = s1\<lparr>in_recv_multipart := False\<rparr>
      in setup_events zmq s2)"

subsection \<open>A concrete socket\<close>

text \<open>
  An open socket at rest, for concrete runs: both cells settled, no batch in progress, every
  native call succeeding, every option (the event state among them) reading 0.
\<close>

definition idle :: socket where
  "idle = \<lparr>closed = False, in_send_multipart = False, in_recv_multipart = False,
            readable = Value, writable = Value, state_event = Some 7,
            send_results = (\<lambda>n. Return ''''), recv_results = (\<lambda>n. Return ''frame''),
            getsockopt_results = (\<lambda>opt n. Return 0), hub = [], calls = [],
            state_changes = 0, pulses = 0\<rparr>"


text \<open>A socket with nothing to receive and no room to send: every native attempt would block.\<close>

definition starved :: socket where
  "starved = idle\<lparr>send_results := (\<lambda>n. Raise 11), recv_results := (\<lambda>n. Raise 11)\<rparr>"

text \<open>
  A newly opened transport socket, before the adapter's constructor has run: the adapter's
  attributes are not assigned yet (the values here are overwritten by the constructor).
\<close>

definition unconstructed :: socket where
  "unconstructed = idle\<lparr>in_send_multipart := True, in_recv_multipart := True,
     readable := Pending, writable := Pending, state_event := None\<rparr>"

text \<open>
  A socket whose next event-state query fails with \<^verbatim>\<open>errno\<close> 4 and whose later queries
  report it readable and writable; the hub will run the watcher's callback once.
\<close>

definition failing_once :: socket where
  "failing_once = idle\<lparr>getsockopt_results := (\<lambda>opt n. if n = 0 then Raise 4 else Return 3),
                        hub := [Fire]\<rparr>"

text \<open>
  A socket that is neither readable nor writable, with a hub that runs the callback twice,
  then lets a unit of time pass, then runs the callback again.
\<close>

definition quiet :: socket where
  "quiet = idle\<lparr>hub := [Fire, Fire, Tick, Fire]\<rparr>"

text \<open>
  A socket on which a greenlet is already parked in each direction (both cells pending), and
  whose native calls would block.
\<close>

definition parked :: socket where
  "parked = starved\<lparr>readable := Pending, writable := Pending\<rparr>"


text \<open>
  A socket with nothing to receive and no room to send, used by a single task that calls
  \<^verbatim>\<open>recv\<close> under an enclosing \<^verbatim>\<open>gevent.Timeout\<close>: the hub throws the timeout into the parked
  greenlet.
\<close>

definition interrupted :: socket where
  "interrupted = starved\<lparr>hub := [Throw Timeout]\<rparr>"




section \<open>Properties\<close>

subsection \<open>Basic facts\<close>

lemma state_changed_frame:
  "hub (state_changed zmq s) = hub s"
  "pulses (state_changed zmq s) = pulses s"
  "send_results (state_changed zmq s) = send_results s"
  "recv_results (state_changed zmq s) = recv_results s"
  "in_send_multipart (state_changed zmq s) = in_send_multipart s"
  "in_recv_multipart (state_changed zmq s) = in_recv_multipart s"
  "closed (state_changed zmq s) = closed s"
  "state_event (state_changed zmq s) = state_event s"
  "state_changes (state_changed zmq s) = state_changes s + 1"
  by (simp_all add: state_changed_def native_getsockopt_def Let_def split: outcome.split)

lemma rechecks_state_changed: "rechecks (state_changed zmq s) = rechecks s + 1"
  by (simp add: rechecks_def state_changed_frame)

lemma get_fire:
  "cell_of d s = Pending \<Longrightarrow> hub s = Fire # h \<Longrightarrow>
   get zmq d timeout s = get zmq d timeout (state_changed zmq (s\<lparr>hub := h, pulses := pulses s + 1\<rparr>))"
  by (subst get.simps) simp

lemma get_tick_none:
  "cell_of d s = Pending \<Longrightarrow> hub s = Tick # h \<Longrightarrow>
   get zmq d None s = get zmq d None (s\<lparr>hub := h\<rparr>)"
  by (subst get.simps) simp

lemma get_tick_timeout:
  "cell_of d s = Pending \<Longrightarrow> hub s = Tick # h \<Longrightarrow> t \<le> 1 \<Longrightarrow>
   get zmq d (Some t) s = Some (Inl Timeout, s\<lparr>hub := h\<rparr>)"
  by (subst get.simps) simp

lemma get_throw:
  "cell_of d s = Pending \<Longrightarrow> hub s = Throw e # h \<Longrightarrow>
   get zmq d timeout s = Some (Inl e, s\<lparr>hub := h\<rparr>)"
  by (subst get.simps) simp

lemma get_nil:
  "cell_of d s = Pending \<Longrightarrow> hub s = [] \<Longrightarrow> get zmq d timeout s = None"
  by (subst get.simps) simp

lemma get_value:
  "cell_of d s = Value \<Longrightarrow> get zmq d timeout s = Some (Inr (), s)"
  by (subst get.simps) simp

lemma get_exception:
  "cell_of d s = Exception e \<Longrightarrow> get zmq d timeout s = Some (Inl e, s)"
  by (subst get.simps) simp

lemma state_changed_closed:
  "closed s \<Longrightarrow>
   state_changed zmq s = s\<lparr>state_changes := state_changes s + 1, writable := Value, readable := Value\<rparr>"
  by (simp add: state_changed_def Let_def set_value_def)


subsection \<open>The readiness callback\<close>

text \<open>
  C5. When the readiness callback runs on a socket that is already closed, it signals the
  writable and the readable cell and does nothing else: no native call is issued (the log
  of native calls and the environment are as before), and a waiter parked on either cell is
  resumed by it with a normal result.
\<close>

theorem closed_callback_signals_both_cells:
  assumes "closed s"
  shows "state_changed zmq s =
           s\<lparr>state_changes := state_changes s + 1, writable := Value, readable := Value\<rparr>
       \<and> calls (state_changed zmq s) = calls s
       \<and> (\<forall>d timeout h. cell_of d s = Pending \<and> hub s = Fire # h \<longrightarrow>
             get zmq d timeout s =
               Some (Inr (), s\<lparr>hub := h, pulses := pulses s + 1, state_changes := state_changes s + 1,
                               writable := Value, readable := Value\<rparr>))"
proof (intro conjI allI impI)
  show eq: "state_changed zmq s =
      s\<lparr>state_changes := state_changes s + 1, writable := Value, readable := Value\<rparr>"
    using assms by (rule state_changed_closed)
  show "calls (state_changed zmq s) = calls s"
    by (simp add: eq)
next
  fix d timeout h
  assume parked: "cell_of d s = Pending \<and> hub s = Fire # h"
  let ?u = "s\<lparr>hub := h, pulses := pulses s + 1\<rparr>"
  have "closed ?u"
    using assms by simp
  then have "state_changed zmq ?u =
      ?u\<lparr>state_changes := state_changes ?u + 1, writable := Value, readable := Value\<rparr>"
    by (rule state_changed_closed)
  moreover have "cell_of d (?u\<lparr>state_changes := state_changes ?u + 1, writable := Value, readable := Value\<rparr>) = Value"
    by (cases d) (simp_all add: cell_of_def)
  ultimately show "get zmq d timeout s =
      Some (Inr (), s\<lparr>hub := h, pulses := pulses s + 1, state_changes := state_changes s + 1,
                      writable := Value, readable := Value\<rparr>)"
    using parked by (simp add: get_fire get_value)
qed

theorem closed_callback_signals_both_cells_witness:
  "closed (idle\<lparr>closed := True, readable := Pending, hub := [Fire]\<rparr>)
   \<and> writable (state_changed zmq_h (idle\<lparr>closed := True, readable := Pending, hub := [Fire]\<rparr>)) = Value
   \<and> readable (state_changed zmq_h (idle\<lparr>closed := True, readable := Pending, hub := [Fire]\<rparr>)) = Value
   \<and> calls (state_changed zmq_h (idle\<lparr>closed := True, readable := Pending, hub := [Fire]\<rparr>)) = []
   \<and> map_option fst (get zmq_h Readable None (idle\<lparr>closed := True, readable := Pending, hub := [Fire]\<rparr>))
       = Some (Inr ())"
  using closed_callback_signals_both_cells
    [of "idle\<lparr>closed := True, readable := Pending, hub := [Fire]\<rparr>" zmq_h]
  by (simp add: idle_def cell_of_def)


text \<open>
  C7. When the callback runs on a socket that is not closed and the event-state query
  returns a bitmask: the writable cell is signalled if the \<^verbatim>\<open>POLLOUT\<close> bit is set and is
  left as it was otherwise; the readable cell is signalled if the \<^verbatim>\<open>POLLIN\<close> bit is set
  and is left as it was otherwise (a pending cell stays pending).
\<close>

theorem callback_signals_per_ready_bit:
  assumes "\<not> closed s"
    and "getsockopt_results s (EVENTS zmq) 0 = Return events"
  shows "writable (state_changed zmq s) = (if events AND POLLOUT zmq \<noteq> 0 then Value else writable s)
       \<and> readable (state_changed zmq s) = (if events AND POLLIN zmq \<noteq> 0 then Value else readable s)"
  using assms
  by (simp add: state_changed_def native_getsockopt_def Let_def set_value_def)

theorem callback_signals_per_ready_bit_witness:
  "\<not> closed (idle\<lparr>readable := Pending, writable := Pending, getsockopt_results := (\<lambda>opt n. Return 2)\<rparr>)
   \<and> writable (state_changed zmq_h
        (idle\<lparr>readable := Pending, writable := Pending, getsockopt_results := (\<lambda>opt n. Return 2)\<rparr>)) = Value
   \<and> readable (state_changed zmq_h
        (idle\<lparr>readable := Pending, writable := Pending, getsockopt_results := (\<lambda>opt n. Return 2)\<rparr>)) = Pending"
  using callback_signals_per_ready_bit
    [of "idle\<lparr>readable := Pending, writable := Pending, getsockopt_results := (\<lambda>opt n. Return 2)\<rparr>"
        zmq_h 2]
  by (simp add: idle_def zmq_h_def)

subsection \<open>getsockopt\<close>

lemma calls_state_changed:
  "calls (state_changed zmq s) = calls s @ (if closed s then [] else [Getsockopt (EVENTS zmq)])"
  by (simp add: state_changed_def native_getsockopt_def Let_def split: outcome.split)




lemma zmq_h_fields:
  "NOBLOCK zmq_h = 1" "POLLIN zmq_h = 1" "POLLOUT zmq_h = 2" "EVENTS zmq_h = 15"
  "FD zmq_h = 14" "EAGAIN zmq_h = 11"
  by (simp_all add: zmq_h_def)


subsection \<open>Calls with the NOBLOCK flag\<close>

lemma native_send_frame:
  "fst (native_send data flags copy track s) = send_results s 0"
  "send_results (snd (native_send data flags copy track s)) = (\<lambda>n. send_results s (Suc n))"
  "recv_results (snd (native_send data flags copy track s)) = recv_results s"
  "getsockopt_results (snd (native_send data flags copy track s)) = getsockopt_results s"
  "calls (snd (native_send data flags copy track s)) = calls s @ [Send data flags copy track]"
  "hub (snd (native_send data flags copy track s)) = hub s"
  "pulses (snd (native_send data flags copy track s)) = pulses s"
  "rechecks (snd (native_send data flags copy track s)) = rechecks s"
  "closed (snd (native_send data flags copy track s)) = closed s"
  "readable (snd (native_send data flags copy track s)) = readable s"
  "writable (snd (native_send data flags copy track s)) = writable s"
  "in_send_multipart (snd (native_send data flags copy track s)) = in_send_multipart s"
  "in_recv_multipart (snd (native_send data flags copy track s)) = in_recv_multipart s"
  by (simp_all add: native_send_def rechecks_def)

lemma native_recv_frame:
  "fst (native_recv flags copy track s) = recv_results s 0"
  "recv_results (snd (native_recv flags copy track s)) = (\<lambda>n. recv_results s (Suc n))"
  "send_results (snd (native_recv flags copy track s)) = send_results s"
  "getsockopt_results (snd (native_recv flags copy track s)) = getsockopt_results s"
  "calls (snd (native_recv flags copy track s)) = calls s @ [Recv flags copy track]"
  "hub (snd (native_recv flags copy track s)) = hub s"
  "pulses (snd (native_recv flags copy track s)) = pulses s"
  "rechecks (snd (native_recv flags copy track s)) = rechecks s"
  "closed (snd (native_recv flags copy track s)) = closed s"
  "readable (snd (native_recv flags copy track s)) = readable s"
  "writable (snd (native_recv flags copy track s)) = writable s"
  "in_send_multipart (snd (native_recv flags copy track s)) = in_send_multipart s"
  "in_recv_multipart (snd (native_recv flags copy track s)) = in_recv_multipart s"
  by (simp_all add: native_recv_def rechecks_def)

lemma send_noblock:
  assumes "flags AND NOBLOCK zmq \<noteq> 0"
  shows "send zmq data flags copy track s =
    Some (case send_results s 0 of Return msg \<Rightarrow> Inr msg | Raise e \<Rightarrow> Inl (ZMQError e),
          if \<not> in_send_multipart s then state_changed zmq (snd (native_send data flags copy track s))
          else snd (native_send data flags copy track s))"
  using assms by (simp add: send_def Let_def native_send_def)

lemma recv_noblock:
  assumes "flags AND NOBLOCK zmq \<noteq> 0"
  shows "recv zmq flags copy track s =
    Some (case recv_results s 0 of Return msg \<Rightarrow> Inr msg | Raise e \<Rightarrow> Inl (ZMQError e),
          if \<not> in_recv_multipart s then state_changed zmq (snd (native_recv flags copy track s))
          else snd (native_recv flags copy track s))"
  using assms by (simp add: recv_def Let_def native_recv_def)

text \<open>
  C3. With the \<^verbatim>\<open>NOBLOCK\<close> bit in \<open>flags\<close>, \<^verbatim>\<open>send\<close> and \<^verbatim>\<open>recv\<close> issue exactly one
  native attempt and return: whatever the hub holds, there is a result and the hub's events
  are untouched (no suspension, no retry). The outcome of the attempt is the outcome of the
  call, so a would-block error is raised to the caller. One readiness re-check follows the
  attempt whatever its outcome, unless the call is part of a multipart batch, where none
  does.
\<close>

theorem noblock_call_attempts_once:
  assumes "flags AND NOBLOCK zmq \<noteq> 0"
  shows "(\<exists>s'. send zmq data flags copy track s =
              Some (case send_results s 0 of Return msg \<Rightarrow> Inr msg | Raise e \<Rightarrow> Inl (ZMQError e), s')
            \<and> calls s' = calls s @ Send data flags copy track #
                 (if in_send_multipart s \<or> closed s then [] else [Getsockopt (EVENTS zmq)])
            \<and> send_results s' = (\<lambda>n. send_results s (Suc n))
            \<and> hub s' = hub s
            \<and> rechecks s' = rechecks s + (if in_send_multipart s then 0 else 1))
       \<and> (\<exists>s'. recv zmq flags copy track s =
              Some (case recv_results s 0 of Return msg \<Rightarrow> Inr msg | Raise e \<Rightarrow> Inl (ZMQError e), s')
            \<and> calls s' = calls s @ Recv flags copy track #
                 (if in_recv_multipart s \<or> closed s then [] else [Getsockopt (EVENTS zmq)])
            \<and> recv_results s' = (\<lambda>n. recv_results s (Suc n))
            \<and> hub s' = hub s
            \<and> rechecks s' = rechecks s + (if in_recv_multipart s then 0 else 1))"
proof (rule conjI)
  show "\<exists>s'. send zmq data flags copy track s =
              Some (case send_results s 0 of Return msg \<Rightarrow> Inr msg | Raise e \<Rightarrow> Inl (ZMQError e), s')
            \<and> calls s' = calls s @ Send data flags copy track #
                 (if in_send_multipart s \<or> closed s then [] else [Getsockopt (EVENTS zmq)])
            \<and> send_results s' = (\<lambda>n. send_results s (Suc n))
            \<and> hub s' = hub s
            \<and> rechecks s' = rechecks s + (if in_send_multipart s then 0 else 1)"
    unfolding send_noblock [OF assms]
    by (simp add: native_send_frame state_changed_frame calls_state_changed
        rechecks_state_changed)
  show "\<exists>s'. recv zmq flags copy track s =
              Some (case recv_results s 0 of Return msg \<Rightarrow> Inr msg | Raise e \<Rightarrow> Inl (ZMQError e), s')
            \<and> calls s' = calls s @ Recv flags copy track #
                 (if in_recv_multipart s \<or> closed s then [] else [Getsockopt (EVENTS zmq)])
            \<and> recv_results s' = (\<lambda>n. recv_results s (Suc n))
            \<and> hub s' = hub s
            \<and> rechecks s' = rechecks s + (if in_recv_multipart s then 0 else 1)"
    unfolding recv_noblock [OF assms]
    by (simp add: native_recv_frame state_changed_frame calls_state_changed
        rechecks_state_changed)
qed

lemma starved_fields:
  "closed starved = False" "in_send_multipart starved = False" "in_recv_multipart starved = False"
  "readable starved = Value" "writable starved = Value"
  "send_results starved n = Raise 11" "recv_results starved n = Raise 11"
  "getsockopt_results starved opt n = Return 0" "hub starved = []" "calls starved = []"
  "state_changes starved = 0" "pulses starved = 0" "rechecks starved = 0"
  by (simp_all add: starved_def idle_def rechecks_def)

theorem noblock_call_attempts_once_witness:
  "(1::int) AND NOBLOCK zmq_h \<noteq> 0
   \<and> map_option fst (send zmq_h ''ping'' 1 True False starved) = Some (Inl (ZMQError (EAGAIN zmq_h)))
   \<and> map_option (calls \<circ> snd) (send zmq_h ''ping'' 1 True False starved)
        = Some [Send ''ping'' 1 True False, Getsockopt 15]
   \<and> map_option (rechecks \<circ> snd) (send zmq_h ''ping'' 1 True False starved) = Some 1
   \<and> map_option fst (recv zmq_h 1 True False starved) = Some (Inl (ZMQError (EAGAIN zmq_h)))
   \<and> map_option (calls \<circ> snd) (recv zmq_h 1 True False starved)
        = Some [Recv 1 True False, Getsockopt 15]
   \<and> map_option (rechecks \<circ> snd) (recv zmq_h 1 True False starved) = Some 1"
proof -
  have flag: "(1::int) AND NOBLOCK zmq_h \<noteq> 0"
    by (simp add: zmq_h_fields)
  from noblock_call_attempts_once [OF flag, of "''ping''" True False starved] flag
  show ?thesis
    by (auto simp: starved_fields zmq_h_fields)
qed

subsection \<open>One pass of the retry loops\<close>

lemma send_loop_return:
  "send_results s 0 = Return m \<Longrightarrow>
   send_loop zmq data flags copy track s =
     Some (Inr m, if \<not> in_send_multipart s
                  then state_changed zmq (snd (native_send data flags copy track s))
                  else snd (native_send data flags copy track s))"
  by (subst send_loop.simps) (simp add: native_send_def)

lemma send_loop_raise:
  "send_results s 0 = Raise e \<Longrightarrow> e \<noteq> EAGAIN zmq \<Longrightarrow>
   send_loop zmq data flags copy track s =
     Some (Inl (ZMQError e), if \<not> in_send_multipart s
                  then state_changed zmq (snd (native_send data flags copy track s))
                  else snd (native_send data flags copy track s))"
  by (subst send_loop.simps) (simp add: native_send_def)

lemma send_loop_again:
  "send_results s 0 = Raise (EAGAIN zmq) \<Longrightarrow>
   send_loop zmq data flags copy track s =
     (case wait_write zmq (snd (native_send data flags copy track s)) of
        None \<Rightarrow> None
      | Some (Inl x, s2) \<Rightarrow> Some (Inl x, s2)
      | Some (Inr u, s2) \<Rightarrow> send_loop zmq data flags copy track s2)"
  by (subst send_loop.simps) (simp add: native_send_def)

lemma recv_loop_return:
  "recv_results s 0 = Return m \<Longrightarrow>
   recv_loop zmq flags copy track s =
     Some (Inr m, if \<not> in_recv_multipart s
                  then state_changed zmq (snd (native_recv flags copy track s))
                  else snd (native_recv flags copy track s))"
  by (subst recv_loop.simps) (simp add: native_recv_def)

lemma recv_loop_raise:
  "recv_results s 0 = Raise e \<Longrightarrow> e \<noteq> EAGAIN zmq \<Longrightarrow>
   recv_loop zmq flags copy track s =
     Some (Inl (ZMQError e), if \<not> in_recv_multipart s
                  then state_changed zmq (snd (native_recv flags copy track s))
                  else snd (native_recv flags copy track s))"
  by (subst recv_loop.simps) (simp add: native_recv_def)

lemma recv_loop_again:
  "recv_results s 0 = Raise (EAGAIN zmq) \<Longrightarrow>
   recv_loop zmq flags copy track s =
     (case wait_read zmq (snd (native_recv flags copy track s)) of
        None \<Rightarrow> None
      | Some (Inl x, s2) \<Rightarrow> Some (Inl x, s2)
      | Some (Inr u, s2) \<Rightarrow> recv_loop zmq flags copy track s2)"
  by (subst recv_loop.simps) (simp add: native_recv_def)

lemma send_return:
  assumes "send_results s 0 = Return m"
  shows "send zmq data flags copy track s =
     Some (Inr m, if \<not> in_send_multipart s
                  then state_changed zmq (snd (native_send data
                         (if flags AND NOBLOCK zmq \<noteq> 0 then flags else flags OR NOBLOCK zmq)
                         copy track s))
                  else snd (native_send data
                         (if flags AND NOBLOCK zmq \<noteq> 0 then flags else flags OR NOBLOCK zmq)
                         copy track s))"
proof (cases "flags AND NOBLOCK zmq \<noteq> 0")
  case True
  with assms show ?thesis
    by (simp add: send_noblock)
next
  case False
  with assms show ?thesis
    by (simp add: send_def send_loop_return)
qed

lemma recv_return:
  assumes "recv_results s 0 = Return m"
  shows "recv zmq flags copy track s =
     Some (Inr m, if \<not> in_recv_multipart s
                  then state_changed zmq (snd (native_recv
                         (if flags AND NOBLOCK zmq \<noteq> 0 then flags else flags OR NOBLOCK zmq)
                         copy track s))
                  else snd (native_recv
                         (if flags AND NOBLOCK zmq \<noteq> 0 then flags else flags OR NOBLOCK zmq)
                         copy track s))"
proof (cases "flags AND NOBLOCK zmq \<noteq> 0")
  case True
  with assms show ?thesis
    by (simp add: recv_noblock)
next
  case False
  with assms show ?thesis
    by (simp add: recv_def recv_loop_return)
qed

subsection \<open>Construction\<close>

lemma init_other:
  assumes "FD zmq \<noteq> EVENTS zmq"
  shows "snd (init zmq s) =
     (let s5 = snd (native_getsockopt (FD zmq)
                 (s\<lparr>in_send_multipart := False, in_recv_multipart := False,
                    readable := Value, writable := Value\<rparr>))
      in case getsockopt_results s (FD zmq) 0 of
           Return fd \<Rightarrow> s5\<lparr>state_event := Some fd\<rparr>
         | Raise e \<Rightarrow> s5)"
    and "fst (init zmq s) =
      (case getsockopt_results s (FD zmq) 0 of Return fd \<Rightarrow> Inr () | Raise e \<Rightarrow> Inl (ZMQError e))"
  using assms
  by (simp_all add: init_def setup_events_def getsockopt_def native_getsockopt_def Let_def
      AsyncResult_def set_value_def split: outcome.split)

lemma init_fields:
  assumes "FD zmq \<noteq> EVENTS zmq"
  shows "readable (snd (init zmq s)) = Value" "writable (snd (init zmq s)) = Value"
    "in_send_multipart (snd (init zmq s)) = False" "in_recv_multipart (snd (init zmq s)) = False"
    "send_results (snd (init zmq s)) = send_results s"
    "recv_results (snd (init zmq s)) = recv_results s"
  by (simp_all add: init_other [OF assms] Let_def native_getsockopt_def split: outcome.split)

text \<open>
  C10. After the constructor has run (the option names \<^verbatim>\<open>FD\<close> and \<^verbatim>\<open>EVENTS\<close> being
  different), the readable and the writable cell are both signalled and both multipart
  flags are false. So the assertion of a first wait holds in either direction, and a first
  single-frame send or recv whose native attempt succeeds fires its readiness re-check.
\<close>

theorem fresh_adapter_cells_signaled:
  assumes "FD zmq \<noteq> EVENTS zmq"
  shows "readable (snd (init zmq s)) = Value \<and> writable (snd (init zmq s)) = Value
       \<and> \<not> in_send_multipart (snd (init zmq s)) \<and> \<not> in_recv_multipart (snd (init zmq s))
       \<and> ready (writable (snd (init zmq s))) \<and> ready (readable (snd (init zmq s)))
       \<and> (getsockopt_results s (FD zmq) 0 = Return fd \<longrightarrow>
            fst (init zmq s) = Inr () \<and> state_event (snd (init zmq s)) = Some fd)
       \<and> (send_results s 0 = Return m \<longrightarrow>
            (\<exists>s'. send zmq data flags copy track (snd (init zmq s)) = Some (Inr m, s')
                 \<and> rechecks s' = rechecks (snd (init zmq s)) + 1))
       \<and> (recv_results s 0 = Return m \<longrightarrow>
            (\<exists>s'. recv zmq flags copy track (snd (init zmq s)) = Some (Inr m, s')
                 \<and> rechecks s' = rechecks (snd (init zmq s)) + 1))"
proof (intro conjI impI)
  note f = init_fields [OF assms, of s]
  show "readable (snd (init zmq s)) = Value" "writable (snd (init zmq s)) = Value"
    "\<not> in_send_multipart (snd (init zmq s))" "\<not> in_recv_multipart (snd (init zmq s))"
    "ready (writable (snd (init zmq s)))" "ready (readable (snd (init zmq s)))"
    by (simp_all add: f ready_def)
  {
    assume "getsockopt_results s (FD zmq) 0 = Return fd"
    then show "fst (init zmq s) = Inr ()" "state_event (snd (init zmq s)) = Some fd"
      by (simp_all add: init_other [OF assms] Let_def)
  }
  {
    assume "send_results s 0 = Return m"
    then have "send_results (snd (init zmq s)) 0 = Return m"
      by (simp add: f)
    from send_return [OF this]
    show "\<exists>s'. send zmq data flags copy track (snd (init zmq s)) = Some (Inr m, s')
                 \<and> rechecks s' = rechecks (snd (init zmq s)) + 1"
      by (simp add: f rechecks_state_changed native_send_frame)
  }
  {
    assume "recv_results s 0 = Return m"
    then have "recv_results (snd (init zmq s)) 0 = Return m"
      by (simp add: f)
    from recv_return [OF this]
    show "\<exists>s'. recv zmq flags copy track (snd (init zmq s)) = Some (Inr m, s')
                 \<and> rechecks s' = rechecks (snd (init zmq s)) + 1"
      by (simp add: f rechecks_state_changed native_recv_frame)
  }
qed

lemma unconstructed_fields:
  "send_results unconstructed n = Return []" "recv_results unconstructed n = Return ''frame''"
  "getsockopt_results unconstructed opt n = Return 0"
  by (simp_all add: unconstructed_def idle_def)

theorem fresh_adapter_cells_signaled_witness:
  "FD zmq_h \<noteq> EVENTS zmq_h
   \<and> readable (snd (init zmq_h unconstructed)) = Value
   \<and> writable (snd (init zmq_h unconstructed)) = Value
   \<and> \<not> in_send_multipart (snd (init zmq_h unconstructed))
   \<and> \<not> in_recv_multipart (snd (init zmq_h unconstructed))
   \<and> fst (init zmq_h unconstructed) = Inr ()
   \<and> map_option fst (send zmq_h ''ping'' 0 True False (snd (init zmq_h unconstructed))) = Some (Inr [])
   \<and> map_option fst (recv zmq_h 0 True False (snd (init zmq_h unconstructed))) = Some (Inr ''frame'')"
proof -
  have distinct: "FD zmq_h \<noteq> EVENTS zmq_h"
    by (simp add: zmq_h_fields)
  from fresh_adapter_cells_signaled [OF distinct, of unconstructed 0 "[]" "''ping''" 0 True False]
    fresh_adapter_cells_signaled [OF distinct, of unconstructed 0 "''frame''" "''ping''" 0 True False]
    distinct
  show ?thesis
    by (auto simp: unconstructed_fields)
qed

subsection \<open>Reasoning about a wait\<close>

lemma get_run [consumes 1, case_names Value Exception Timeout Tick Fire Throw]:
  assumes run: "get zmq d t s = Some (r, s')"
    and val: "\<And>s t. cell_of d s = Value \<Longrightarrow> P t s (Inr ()) s"
    and exc: "\<And>s t e. cell_of d s = Exception e \<Longrightarrow> P t s (Inl e) s"
    and timeout: "\<And>s n h. cell_of d s = Pending \<Longrightarrow> hub s = Tick # h \<Longrightarrow> n \<le> 1 \<Longrightarrow>
        P (Some n) s (Inl Timeout) (s\<lparr>hub := h\<rparr>)"
    and tick: "\<And>s t t' h r s'. cell_of d s = Pending \<Longrightarrow> hub s = Tick # h \<Longrightarrow>
        t = None \<and> t' = None \<or> (\<exists>n. t = Some n \<and> \<not> n \<le> 1 \<and> t' = Some (n - 1)) \<Longrightarrow>
        get zmq d t' (s\<lparr>hub := h\<rparr>) = Some (r, s') \<Longrightarrow> P t' (s\<lparr>hub := h\<rparr>) r s' \<Longrightarrow>
        P t s r s'"
    and fire: "\<And>s t h r s'. cell_of d s = Pending \<Longrightarrow> hub s = Fire # h \<Longrightarrow>
        get zmq d t (state_changed zmq (s\<lparr>hub := h, pulses := pulses s + 1\<rparr>)) = Some (r, s') \<Longrightarrow>
        P t (state_changed zmq (s\<lparr>hub := h, pulses := pulses s + 1\<rparr>)) r s' \<Longrightarrow>
        P t s r s'"
    and thrown: "\<And>s t e h. cell_of d s = Pending \<Longrightarrow> hub s = Throw e # h \<Longrightarrow>
        P t s (Inl e) (s\<lparr>hub := h\<rparr>)"
  shows "P t s r s'"
  using run
proof (induction "hub s" arbitrary: s t)
  case Nil
  from Nil(2) Nil(1) [symmetric] show ?case
    by (subst (asm) get.simps) (auto split: cell.splits intro: val exc)
next
  case (Cons ev h)
  note hub = Cons.hyps(2) [symmetric]
  show ?case
  proof (cases "cell_of d s")
    case Value
    with Cons.prems show ?thesis
      by (subst (asm) get.simps) (auto intro: val)
  next
    case (Exception e)
    with Cons.prems show ?thesis
      by (subst (asm) get.simps) (auto intro: exc)
  next
    case Pending
    show ?thesis
    proof (cases ev)
      case Tick
      show ?thesis
      proof (cases "\<exists>n. t = Some n \<and> n \<le> 1")
        case True
        then obtain n where n: "t = Some n" "n \<le> 1"
          by blast
        with Cons.prems Pending hub Tick have "r = Inl Timeout" "s' = s\<lparr>hub := h\<rparr>"
          by (subst (asm) get.simps, simp)+
        with timeout [of s h n] Pending hub Tick n show ?thesis
          by simp
      next
        case False
        with Cons.prems Pending hub Tick
        obtain t' where t': "t = None \<and> t' = None \<or> (\<exists>n. t = Some n \<and> \<not> n \<le> 1 \<and> t' = Some (n - 1))"
          and rest: "get zmq d t' (s\<lparr>hub := h\<rparr>) = Some (r, s')"
          by (subst (asm) get.simps) (auto split: option.splits if_splits)
        from Cons.hyps(1) [of "s\<lparr>hub := h\<rparr>" t'] rest have "P t' (s\<lparr>hub := h\<rparr>) r s'"
          by simp
        with Pending hub Tick t' rest show ?thesis
          by (intro tick [of s h t t' r s']) simp_all
      qed
    next
      case Fire
      let ?u = "state_changed zmq (s\<lparr>hub := h, pulses := pulses s + 1\<rparr>)"
      from Cons.prems Pending hub Fire have rest: "get zmq d t ?u = Some (r, s')"
        by (subst (asm) get.simps) auto
      with Cons.hyps(1) [of ?u t] have "P t ?u r s'"
        by (simp add: state_changed_frame)
      with Pending hub Fire rest show ?thesis
        by (intro fire [of s h t r s']) simp_all
    next
      case (Throw e)
      with Cons.prems Pending hub have "r = Inl e" "s' = s\<lparr>hub := h\<rparr>"
        by (simp_all add: get_throw)
      with thrown [of s e h t] Pending hub Throw show ?thesis
        by simp
    qed
  qed
qed

lemma get_result:
  assumes "get zmq d t s = Some (r, s')"
  shows "r = Inr () \<and> cell_of d s' = Value
       \<or> (\<exists>e. r = Inl e \<and> cell_of d s' = Exception e)
       \<or> r = Inl Timeout \<and> t \<noteq> None \<and> cell_of d s' = Pending
       \<or> (\<exists>e. r = Inl e \<and> Throw e \<in> set (hub s) \<and> cell_of d s' = Pending)"
  using assms
proof (induction rule: get_run)
  case (Timeout s n h)
  then show ?case
    by (cases d) (simp_all add: cell_of_def)
next
  case (Tick s t t' h r s')
  then show ?case
    by auto
next
  case (Fire s t h r s')
  then show ?case
    by (auto simp: state_changed_frame)
next
  case (Throw s t e h)
  then show ?case
    by (cases d) (simp_all add: cell_of_def)
qed simp_all

lemma rechecks_get:
  assumes "get zmq d t s = Some (r, s')"
  shows "rechecks s' = rechecks s"
  using assms
proof (induction rule: get_run)
  case (Tick s t t' h r s')
  then show ?case
    by (simp add: rechecks_def)
next
  case (Fire s t h r s')
  then show ?case
    by (simp add: rechecks_state_changed) (simp add: rechecks_def)
qed (simp_all add: rechecks_def)

lemma get_frame:
  assumes "get zmq d t s = Some (r, s')"
  shows "send_results s' = send_results s \<and> recv_results s' = recv_results s
       \<and> in_send_multipart s' = in_send_multipart s \<and> in_recv_multipart s' = in_recv_multipart s
       \<and> closed s' = closed s \<and> set (hub s') \<subseteq> set (hub s)"
  using assms
  by (induction rule: get_run) (auto simp: state_changed_frame)

subsection \<open>A failed event-state query\<close>

lemma state_changed_raise:
  assumes "\<not> closed s" and "getsockopt_results s (EVENTS zmq) 0 = Raise e"
  shows "writable (state_changed zmq s) = Exception (ZMQError e)"
    and "readable (state_changed zmq s) = Exception (ZMQError e)"
  using assms
  by (simp_all add: state_changed_def native_getsockopt_def Let_def set_exception_def)

lemma state_changed_events:
  "getsockopt_results (state_changed zmq s) (EVENTS zmq) n =
     getsockopt_results s (EVENTS zmq) (if closed s then n else Suc n)"
  by (simp add: state_changed_def native_getsockopt_def Let_def split: outcome.split)

lemma wait_write_begin:
  "ready (writable s) \<Longrightarrow>
   wait_write zmq s =
     (case get zmq Writable (Some 1) (s\<lparr>writable := Pending\<rparr>) of
        None \<Rightarrow> None
      | Some (Inl Timeout, s1) \<Rightarrow> Some (Inr (), s1\<lparr>writable := set_value (writable s1)\<rparr>)
      | Some (r, s1) \<Rightarrow> Some (r, s1))"
  by (simp add: wait_write_def AsyncResult_def)

lemma wait_write_discards:
  "ready (writable s) \<Longrightarrow> wait_write zmq s = wait_write zmq (s\<lparr>writable := Value\<rparr>)"
  by (simp add: wait_write_def ready_def)

lemma wait_read_discards:
  "ready (readable s) \<Longrightarrow> wait_read zmq s = wait_read zmq (s\<lparr>readable := Value\<rparr>)"
  by (simp add: wait_read_def ready_def)

lemma wait_read_begin:
  "ready (readable s) \<Longrightarrow> wait_read zmq s = get zmq Readable None (s\<lparr>readable := Pending\<rparr>)"
  by (simp add: wait_read_def AsyncResult_def)

lemma parked_waiter_gets_error:
  assumes "\<not> closed s" and "getsockopt_results s (EVENTS zmq) 0 = Raise e"
    and "cell_of d s = Pending" and "hub s = Fire # h"
  shows "get zmq d timeout s =
     Some (Inl (ZMQError e), state_changed zmq (s\<lparr>hub := h, pulses := pulses s + 1\<rparr>))"
proof -
  let ?u = "s\<lparr>hub := h, pulses := pulses s + 1\<rparr>"
  have "\<not> closed ?u" "getsockopt_results ?u (EVENTS zmq) 0 = Raise e"
    using assms by simp_all
  then have "cell_of d (state_changed zmq ?u) = Exception (ZMQError e)"
    by (cases d) (simp_all add: cell_of_def state_changed_raise)
  then show ?thesis
    using assms by (simp add: get_fire get_exception)
qed

text \<open>
  C6 (as amended). When the event-state query inside the readiness callback fails, the
  failure is stored as an error result in the writable and in the readable cell, and a
  waiter parked on either cell at that moment is resumed with that exception (from
  \<^verbatim>\<open>_wait_write\<close> it is not taken for the timeout). A wait begun afterwards replaces the
  cell and goes on exactly as it would from a signalled cell: it is not handed the stored
  exception. The callback itself returns normally.
\<close>

theorem failed_query_reaches_parked_waiters:
  assumes "\<not> closed s" and "getsockopt_results s (EVENTS zmq) 0 = Raise e"
  shows "writable (state_changed zmq s) = Exception (ZMQError e)
       \<and> readable (state_changed zmq s) = Exception (ZMQError e)
       \<and> (\<forall>d timeout h. cell_of d s = Pending \<and> hub s = Fire # h \<longrightarrow>
            (\<exists>s'. get zmq d timeout s = Some (Inl (ZMQError e), s')))
       \<and> (\<forall>h. ready (writable s) \<and> hub s = Fire # h \<longrightarrow>
            (\<exists>s'. wait_write zmq s = Some (Inl (ZMQError e), s')))
       \<and> (\<forall>h. ready (readable s) \<and> hub s = Fire # h \<longrightarrow>
            (\<exists>s'. wait_read zmq s = Some (Inl (ZMQError e), s')))
       \<and> wait_write zmq (state_changed zmq s) =
            wait_write zmq ((state_changed zmq s)\<lparr>writable := Value\<rparr>)
       \<and> wait_read zmq (state_changed zmq s) =
            wait_read zmq ((state_changed zmq s)\<lparr>readable := Value\<rparr>)"
proof (intro conjI allI impI)
  note cells = state_changed_raise [OF assms]
  show "writable (state_changed zmq s) = Exception (ZMQError e)"
    "readable (state_changed zmq s) = Exception (ZMQError e)"
    by (rule cells)+
  show "wait_write zmq (state_changed zmq s) =
            wait_write zmq ((state_changed zmq s)\<lparr>writable := Value\<rparr>)"
    by (rule wait_write_discards) (simp add: cells ready_def)
  show "wait_read zmq (state_changed zmq s) =
            wait_read zmq ((state_changed zmq s)\<lparr>readable := Value\<rparr>)"
    by (rule wait_read_discards) (simp add: cells ready_def)
next
  fix d timeout h
  assume "cell_of d s = Pending \<and> hub s = Fire # h"
  with parked_waiter_gets_error [OF assms, of d h timeout]
  show "\<exists>s'. get zmq d timeout s = Some (Inl (ZMQError e), s')"
    by simp
next
  fix h
  assume a: "ready (writable s) \<and> hub s = Fire # h"
  let ?p = "s\<lparr>writable := Pending\<rparr>"
  have "get zmq Writable (Some 1) ?p =
      Some (Inl (ZMQError e), state_changed zmq (?p\<lparr>hub := h, pulses := pulses ?p + 1\<rparr>))"
    using assms a by (intro parked_waiter_gets_error) (simp_all add: cell_of_def)
  with a show "\<exists>s'. wait_write zmq s = Some (Inl (ZMQError e), s')"
    by (simp add: wait_write_begin)
next
  fix h
  assume a: "ready (readable s) \<and> hub s = Fire # h"
  let ?p = "s\<lparr>readable := Pending\<rparr>"
  have "get zmq Readable None ?p =
      Some (Inl (ZMQError e), state_changed zmq (?p\<lparr>hub := h, pulses := pulses ?p + 1\<rparr>))"
    using assms a by (intro parked_waiter_gets_error) (simp_all add: cell_of_def)
  with a show "\<exists>s'. wait_read zmq s = Some (Inl (ZMQError e), s')"
    by (simp add: wait_read_begin)
qed

lemma failing_once_fields:
  "closed failing_once = False" "readable failing_once = Value" "writable failing_once = Value"
  "getsockopt_results failing_once opt 0 = Raise 4"
  "getsockopt_results failing_once opt (Suc n) = Return 3"
  "hub failing_once = [Fire]"
  by (simp_all add: failing_once_def idle_def)

theorem failed_query_reaches_parked_waiters_witness:
  "\<not> closed failing_once
   \<and> getsockopt_results failing_once (EVENTS zmq_h) 0 = Raise 4
   \<and> writable (state_changed zmq_h failing_once) = Exception (ZMQError 4)
   \<and> readable (state_changed zmq_h failing_once) = Exception (ZMQError 4)
   \<and> map_option fst (wait_write zmq_h failing_once) = Some (Inl (ZMQError 4))
   \<and> map_option fst (wait_read zmq_h failing_once) = Some (Inl (ZMQError 4))"
  using failed_query_reaches_parked_waiters [of failing_once zmq_h 4]
  by (auto simp: failing_once_fields ready_def)

text \<open>
  The claim as first stated also promised the stored exception to the next waiter. It does
  not get it: here the query fails with \<^verbatim>\<open>errno\<close> 4, both cells hold the error, and the
  waits begun next on the writable and on the readable cell both return normally.
\<close>

theorem next_waiter_misses_error_counterexample:
  "\<not> closed failing_once
   \<and> getsockopt_results failing_once (EVENTS zmq_h) 0 = Raise 4
   \<and> writable (state_changed zmq_h failing_once) = Exception (ZMQError 4)
   \<and> readable (state_changed zmq_h failing_once) = Exception (ZMQError 4)
   \<and> map_option fst (wait_write zmq_h (state_changed zmq_h failing_once)) = Some (Inr ())
   \<and> map_option fst (wait_read zmq_h (state_changed zmq_h failing_once)) = Some (Inr ())"
  by (simp add: failing_once_def idle_def zmq_h_def state_changed_def native_getsockopt_def
      Let_def set_exception_def set_value_def wait_write_def wait_read_def ready_def
      AsyncResult_def get_fire get_value cell_of_def)

subsection \<open>The timeout of the write wait\<close>

lemma state_changed_quiet:
  assumes "\<not> closed s" and "getsockopt_results s (EVENTS zmq) 0 = Return events"
  shows "events AND POLLOUT zmq = 0 \<Longrightarrow> writable (state_changed zmq s) = writable s"
    and "events AND POLLIN zmq = 0 \<Longrightarrow> readable (state_changed zmq s) = readable s"
  using assms
  by (simp_all add: state_changed_def native_getsockopt_def Let_def)

lemma get_write_quiet:
  assumes "writable s = Pending" and "\<not> closed s"
    and "hub s = replicate j Fire @ Tick # h"
    and "\<forall>i<j. \<exists>events. getsockopt_results s (EVENTS zmq) i = Return events
                          \<and> events AND POLLOUT zmq = 0"
  shows "\<exists>s'. get zmq Writable (Some 1) s = Some (Inl Timeout, s')
             \<and> writable s' = Pending \<and> hub s' = h"
  using assms
proof (induction j arbitrary: s)
  case 0
  then have "get zmq Writable (Some 1) s = Some (Inl Timeout, s\<lparr>hub := h\<rparr>)"
    by (intro get_tick_timeout) (simp_all add: cell_of_def)
  with 0 show ?case
    by simp
next
  case (Suc j)
  let ?u = "s\<lparr>hub := replicate j Fire @ Tick # h, pulses := pulses s + 1\<rparr>"
  from Suc.prems(4) obtain events
    where q: "getsockopt_results s (EVENTS zmq) 0 = Return events" "events AND POLLOUT zmq = 0"
    by auto
  have step: "get zmq Writable (Some 1) s = get zmq Writable (Some 1) (state_changed zmq ?u)"
    using Suc.prems by (intro get_fire) (simp_all add: cell_of_def)
  have "writable (state_changed zmq ?u) = Pending"
    using state_changed_quiet(1) [of ?u zmq events] Suc.prems q by simp
  moreover have "\<not> closed (state_changed zmq ?u)"
    using Suc.prems by (simp add: state_changed_frame)
  moreover have "hub (state_changed zmq ?u) = replicate j Fire @ Tick # h"
    by (simp add: state_changed_frame)
  moreover have "\<forall>i<j. \<exists>events. getsockopt_results (state_changed zmq ?u) (EVENTS zmq) i = Return events
                          \<and> events AND POLLOUT zmq = 0"
    using Suc.prems by (simp add: state_changed_events)
  ultimately show ?case
    unfolding step by (rule Suc.IH)
qed

lemma get_read_quiet:
  assumes "readable s = Pending" and "\<not> closed s"
    and "\<forall>i<length (filter (\<lambda>ev. ev = Fire) (hub s)).
           \<exists>events. getsockopt_results s (EVENTS zmq) i = Return events \<and> events AND POLLIN zmq = 0"
    and "\<forall>e. Throw e \<notin> set (hub s)"
  shows "get zmq Readable None s = None"
  using assms
proof (induction "hub s" arbitrary: s)
  case Nil
  then show ?case
    by (intro get_nil) (simp_all add: cell_of_def)
next
  case (Cons ev h)
  note hub = Cons.hyps(2) [symmetric]
  show ?case
  proof (cases ev)
    case Tick
    with hub Cons.prems
    have step: "get zmq Readable None s = get zmq Readable None (s\<lparr>hub := h\<rparr>)"
      by (intro get_tick_none) (simp_all add: cell_of_def)
    show ?thesis
      unfolding step using Cons.prems hub Tick by (intro Cons.hyps(1)) simp_all
  next
    case Fire
    let ?u = "s\<lparr>hub := h, pulses := pulses s + 1\<rparr>"
    from Cons.prems(3) hub Fire obtain events
      where q: "getsockopt_results s (EVENTS zmq) 0 = Return events" "events AND POLLIN zmq = 0"
      by auto
    from hub Fire Cons.prems
    have step: "get zmq Readable None s = get zmq Readable None (state_changed zmq ?u)"
      by (intro get_fire) (simp_all add: cell_of_def)
    have "readable (state_changed zmq ?u) = Pending"
      using state_changed_quiet(2) [of ?u zmq events] Cons.prems q by simp
    moreover have "\<not> closed (state_changed zmq ?u)"
      using Cons.prems by (simp add: state_changed_frame)
    moreover have "\<forall>i<length (filter (\<lambda>ev. ev = Fire) (hub (state_changed zmq ?u))).
        \<exists>events. getsockopt_results (state_changed zmq ?u) (EVENTS zmq) i = Return events
                \<and> events AND POLLIN zmq = 0"
      using Cons.prems hub Fire by (simp add: state_changed_frame state_changed_events)
    moreover have "h = hub (state_changed zmq ?u)"
      by (simp add: state_changed_frame)
    moreover have "\<forall>e. Throw e \<notin> set (hub (state_changed zmq ?u))"
      using Cons.prems(4) hub by (simp add: state_changed_frame)
    ultimately show ?thesis
      unfolding step by (intro Cons.hyps(1)) simp_all
  next
    case (Throw e)
    with Cons.prems(4) hub show ?thesis
      by auto
  qed
qed

lemma state_changed_cell:
  "cell_of d (state_changed zmq s) = cell_of d s
   \<or> cell_of d (state_changed zmq s) = Value
   \<or> (\<exists>n. cell_of d (state_changed zmq s) = Exception (ZMQError n))"
  by (cases d)
     (simp_all add: cell_of_def state_changed_def native_getsockopt_def Let_def set_value_def
        set_exception_def split: outcome.split)

lemma ready_state_changed:
  "ready (writable s) \<Longrightarrow> ready (writable (state_changed zmq s))"
  "ready (readable s) \<Longrightarrow> ready (readable (state_changed zmq s))"
  by (simp_all add: ready_def state_changed_def native_getsockopt_def Let_def set_value_def
        set_exception_def split: outcome.split)

lemma get_outcome:
  assumes "get zmq d t s = Some (r, s')"
  shows "cell_of d s = Pending \<or> cell_of d s = Value \<or> (\<exists>n. cell_of d s = Exception (ZMQError n)) \<longrightarrow>
         r = Inr () \<and> cell_of d s' = Value
       \<or> (\<exists>n. r = Inl (ZMQError n) \<and> cell_of d s' = Exception (ZMQError n))
       \<or> r = Inl Timeout \<and> t \<noteq> None \<and> cell_of d s' = Pending
       \<or> (\<exists>e. r = Inl e \<and> Throw e \<in> set (hub s) \<and> cell_of d s' = Pending)"
  using assms
proof (induction rule: get_run)
  case (Timeout s n h)
  then show ?case
    by (cases d) (simp_all add: cell_of_def)
next
  case (Tick s t t' h r s')
  then show ?case
    by (cases d) (auto simp: cell_of_def)
next
  case (Fire s t h r s')
  let ?u = "s\<lparr>hub := h, pulses := pulses s + 1\<rparr>"
  have "cell_of d ?u = Pending"
    using Fire.hyps(1) by (cases d) (simp_all add: cell_of_def)
  with state_changed_cell [of d zmq ?u] Fire.IH Fire.hyps(2) show ?case
    by (auto simp: state_changed_frame)
next
  case (Throw s t e h)
  then show ?case
    by (cases d) (simp_all add: cell_of_def)
qed auto

text \<open>
  C4. \<^verbatim>\<open>_wait_write\<close> waits with a timeout of one unit of time: when the callbacks that run
  before that unit has passed neither signal the writable cell nor fail, the wait is resumed
  by the timeout, returns normally and leaves the writable cell signalled, so that the next
  wait of the retry loop finds its precondition. \<^verbatim>\<open>_wait_read\<close> has no timeout: however
  many units of time pass, it is not resumed while no callback signals the readable cell or
  fails and nothing is thrown into the parked greenlet; when it is resumed, the readable
  cell holds a value (normal return) or the exception it raises, or the exception was thrown
  into the greenlet and the cell is still pending; and it raises \<^verbatim>\<open>gevent.Timeout\<close> only
  if one was thrown into it.
\<close>

theorem write_wait_times_out_read_wait_does_not:
  "(ready (writable s) \<and> \<not> closed s \<and> hub s = replicate j Fire @ Tick # h
     \<and> (\<forall>i<j. \<exists>events. getsockopt_results s (EVENTS zmq) i = Return events
                        \<and> events AND POLLOUT zmq = 0)
     \<longrightarrow> (\<exists>s'. wait_write zmq s = Some (Inr (), s') \<and> writable s' = Value \<and> hub s' = h))
   \<and> (ready (readable s) \<and> \<not> closed s \<and> (\<forall>e. Throw e \<notin> set (hub s))
     \<and> (\<forall>i<length (filter (\<lambda>ev. ev = Fire) (hub s)).
           \<exists>events. getsockopt_results s (EVENTS zmq) i = Return events \<and> events AND POLLIN zmq = 0)
     \<longrightarrow> wait_read zmq s = None)
   \<and> (ready (readable s) \<and> wait_read zmq s = Some (r, s')
     \<longrightarrow> r = Inr () \<and> readable s' = Value \<or> (\<exists>e. r = Inl e \<and> readable s' = Exception e)
       \<or> (\<exists>e. r = Inl e \<and> Throw e \<in> set (hub s) \<and> readable s' = Pending))
   \<and> (ready (readable s) \<and> wait_read zmq s = Some (r, s')
     \<longrightarrow> r \<noteq> Inl Timeout \<or> Throw Timeout \<in> set (hub s))"
proof (intro conjI impI)
  assume a: "ready (writable s) \<and> \<not> closed s \<and> hub s = replicate j Fire @ Tick # h
     \<and> (\<forall>i<j. \<exists>events. getsockopt_results s (EVENTS zmq) i = Return events
                        \<and> events AND POLLOUT zmq = 0)"
  then have "\<exists>s'. get zmq Writable (Some 1) (s\<lparr>writable := Pending\<rparr>) = Some (Inl Timeout, s')
             \<and> writable s' = Pending \<and> hub s' = h"
    by (intro get_write_quiet) auto
  with a show "\<exists>s'. wait_write zmq s = Some (Inr (), s') \<and> writable s' = Value \<and> hub s' = h"
    by (auto simp: wait_write_begin set_value_def)
next
  assume a: "ready (readable s) \<and> \<not> closed s \<and> (\<forall>e. Throw e \<notin> set (hub s))
     \<and> (\<forall>i<length (filter (\<lambda>ev. ev = Fire) (hub s)).
           \<exists>events. getsockopt_results s (EVENTS zmq) i = Return events \<and> events AND POLLIN zmq = 0)"
  then have "get zmq Readable None (s\<lparr>readable := Pending\<rparr>) = None"
    by (intro get_read_quiet) auto
  with a show "wait_read zmq s = None"
    by (simp add: wait_read_begin)
next
  assume a: "ready (readable s) \<and> wait_read zmq s = Some (r, s')"
  then have "get zmq Readable None (s\<lparr>readable := Pending\<rparr>) = Some (r, s')"
    using wait_read_begin [of s zmq] by auto
  from get_result [OF this]
  show "r = Inr () \<and> readable s' = Value \<or> (\<exists>e. r = Inl e \<and> readable s' = Exception e)
       \<or> (\<exists>e. r = Inl e \<and> Throw e \<in> set (hub s) \<and> readable s' = Pending)"
    by (simp add: cell_of_def)
next
  assume a: "ready (readable s) \<and> wait_read zmq s = Some (r, s')"
  then have "get zmq Readable None (s\<lparr>readable := Pending\<rparr>) = Some (r, s')"
    using wait_read_begin [of s zmq] by auto
  from get_outcome [OF this]
  show "r \<noteq> Inl Timeout \<or> Throw Timeout \<in> set (hub s)"
    by (auto simp: cell_of_def)
qed

lemma quiet_fields:
  "closed quiet = False" "readable quiet = Value" "writable quiet = Value"
  "getsockopt_results quiet opt n = Return 0"
  "hub quiet = [Fire, Fire, Tick, Fire]"
  by (simp_all add: quiet_def idle_def)

theorem write_wait_times_out_read_wait_does_not_witness:
  "ready (writable quiet) \<and> ready (readable quiet) \<and> \<not> closed quiet
   \<and> hub quiet = replicate 2 Fire @ Tick # [Fire]
   \<and> map_option fst (wait_write zmq_h quiet) = Some (Inr ())
   \<and> map_option (writable \<circ> snd) (wait_write zmq_h quiet) = Some Value
   \<and> map_option (hub \<circ> snd) (wait_write zmq_h quiet) = Some [Fire]
   \<and> wait_read zmq_h quiet = None
   \<and> map_option fst (wait_read zmq_h (quiet\<lparr>getsockopt_results := (\<lambda>opt n. Return 1)\<rparr>)) = Some (Inr ())"
proof -
  let ?r = "quiet\<lparr>getsockopt_results := (\<lambda>opt n. Return 1)\<rparr>"
  have run: "wait_read zmq_h ?r = Some (Inr (),
      ?r\<lparr>hub := [Fire, Tick, Fire], pulses := 1, state_changes := 1, readable := Value,
         getsockopt_results := (\<lambda>opt n. Return 1), calls := [Getsockopt 15]\<rparr>)"
    by (simp add: quiet_def idle_def zmq_h_def state_changed_def native_getsockopt_def
      Let_def set_value_def wait_read_def ready_def AsyncResult_def get_fire get_value
      cell_of_def fun_eq_iff)
  have ready: "ready (readable ?r)"
    by (simp add: quiet_fields ready_def)
  from write_wait_times_out_read_wait_does_not [of quiet 2 "[Fire]" zmq_h "Inr ()" quiet]
    write_wait_times_out_read_wait_does_not [of ?r 0 "[]" zmq_h "Inr ()" "the (map_option snd (wait_read zmq_h ?r))"]
    run ready
  show ?thesis
    by (auto simp: quiet_fields zmq_h_fields ready_def numeral_2_eq_2)
qed

subsection \<open>The assertion of the waits\<close>

lemma get_keeps_ready:
  assumes "get zmq d t s = Some (r, s')"
  shows "(ready (writable s) \<longrightarrow> ready (writable s')) \<and> (ready (readable s) \<longrightarrow> ready (readable s'))"
  using assms
proof (induction rule: get_run)
  case (Fire s t h r s')
  let ?u = "s\<lparr>hub := h, pulses := pulses s + 1\<rparr>"
  have "ready (writable s) \<longrightarrow> ready (writable (state_changed zmq ?u))"
    "ready (readable s) \<longrightarrow> ready (readable (state_changed zmq ?u))"
    using ready_state_changed [of ?u zmq] by simp_all
  with Fire.IH show ?case
    by blast
qed simp_all

lemma wait_write_assert:
  "\<not> ready (writable s) \<Longrightarrow> wait_write zmq s = Some (Inl AssertionError, s)"
  by (simp add: wait_write_def)

lemma wait_read_assert:
  "\<not> ready (readable s) \<Longrightarrow> wait_read zmq s = Some (Inl AssertionError, s)"
  by (simp add: wait_read_def)

lemma wait_write_cases:
  assumes "ready (writable s)" and "wait_write zmq s = Some (r, s')"
  obtains (timeout) u where "get zmq Writable (Some 1) (s\<lparr>writable := Pending\<rparr>) = Some (Inl Timeout, u)"
      and "r = Inr ()" and "s' = u\<lparr>writable := Value\<rparr>"
    | (resumed) "get zmq Writable (Some 1) (s\<lparr>writable := Pending\<rparr>) = Some (r, s')"
      and "r \<noteq> Inl Timeout"
  using assms
  by (auto simp: wait_write_begin set_value_def split: option.splits sum.splits exc.splits)

lemma wait_write_result:
  assumes "ready (writable s)" and "wait_write zmq s = Some (r, s')"
  shows "r = Inr () \<and> writable s' = Value
       \<or> (\<exists>n. r = Inl (ZMQError n) \<and> writable s' = Exception (ZMQError n))
       \<or> (\<exists>e. r = Inl e \<and> e \<noteq> Timeout \<and> Throw e \<in> set (hub s) \<and> writable s' = Pending)"
  using assms
proof (cases rule: wait_write_cases)
  case (timeout u)
  then show ?thesis
    by simp
next
  case resumed
  from get_outcome [OF resumed(1)] resumed(2)
  show ?thesis
    by (auto simp: cell_of_def)
qed

lemma wait_read_result:
  assumes "ready (readable s)" and "wait_read zmq s = Some (r, s')"
  shows "r = Inr () \<and> readable s' = Value
       \<or> (\<exists>n. r = Inl (ZMQError n) \<and> readable s' = Exception (ZMQError n))
       \<or> (\<exists>e. r = Inl e \<and> Throw e \<in> set (hub s) \<and> readable s' = Pending)"
proof -
  from assms have run: "get zmq Readable None (s\<lparr>readable := Pending\<rparr>) = Some (r, s')"
    using wait_read_begin [of s zmq] by simp
  from get_outcome [OF run] show ?thesis
    by (auto simp: cell_of_def)
qed

lemma wait_write_frame:
  assumes "wait_write zmq s = Some (r, s')"
  shows "send_results s' = send_results s \<and> recv_results s' = recv_results s
       \<and> in_send_multipart s' = in_send_multipart s \<and> in_recv_multipart s' = in_recv_multipart s
       \<and> closed s' = closed s \<and> rechecks s' = rechecks s
       \<and> (ready (readable s) \<longrightarrow> ready (readable s'))
       \<and> set (hub s') \<subseteq> set (hub s)"
proof (cases "ready (writable s)")
  case False
  with assms show ?thesis
    by (simp add: wait_write_assert)
next
  case True
  from True assms show ?thesis
  proof (cases rule: wait_write_cases)
    case (timeout u)
    from get_frame [OF timeout(1)] rechecks_get [OF timeout(1)] get_keeps_ready [OF timeout(1)]
      timeout(3)
    show ?thesis
      by (simp add: rechecks_def)
  next
    case resumed
    from get_frame [OF resumed(1)] rechecks_get [OF resumed(1)] get_keeps_ready [OF resumed(1)]
    show ?thesis
      by (simp add: rechecks_def)
  qed
qed

lemma wait_read_frame:
  assumes "wait_read zmq s = Some (r, s')"
  shows "send_results s' = send_results s \<and> recv_results s' = recv_results s
       \<and> in_send_multipart s' = in_send_multipart s \<and> in_recv_multipart s' = in_recv_multipart s
       \<and> closed s' = closed s \<and> rechecks s' = rechecks s
       \<and> (ready (writable s) \<longrightarrow> ready (writable s'))
       \<and> set (hub s') \<subseteq> set (hub s)"
proof (cases "ready (readable s)")
  case False
  with assms show ?thesis
    by (simp add: wait_read_assert)
next
  case True
  with assms have run: "get zmq Readable None (s\<lparr>readable := Pending\<rparr>) = Some (r, s')"
    using wait_read_begin [of s zmq] by simp
  from get_frame [OF run] rechecks_get [OF run] get_keeps_ready [OF run]
  show ?thesis
    by (simp add: rechecks_def)
qed

lemma send_loop_run [consumes 1, case_names Return Raise Wait_raise Retry]:
  assumes run: "send_loop zmq data flags copy track s = Some (r, s')"
    and ret: "\<And>s m. send_results s 0 = Return m \<Longrightarrow>
        P s (Inr m) (if \<not> in_send_multipart s
                     then state_changed zmq (snd (native_send data flags copy track s))
                     else snd (native_send data flags copy track s))"
    and raise: "\<And>s e. send_results s 0 = Raise e \<Longrightarrow> e \<noteq> EAGAIN zmq \<Longrightarrow>
        P s (Inl (ZMQError e)) (if \<not> in_send_multipart s
                     then state_changed zmq (snd (native_send data flags copy track s))
                     else snd (native_send data flags copy track s))"
    and wait_raise: "\<And>s x s2. send_results s 0 = Raise (EAGAIN zmq) \<Longrightarrow>
        wait_write zmq (snd (native_send data flags copy track s)) = Some (Inl x, s2) \<Longrightarrow>
        P s (Inl x) s2"
    and retry: "\<And>s s2 r s'. send_results s 0 = Raise (EAGAIN zmq) \<Longrightarrow>
        wait_write zmq (snd (native_send data flags copy track s)) = Some (Inr (), s2) \<Longrightarrow>
        send_loop zmq data flags copy track s2 = Some (r, s') \<Longrightarrow> P s2 r s' \<Longrightarrow> P s r s'"
  shows "P s r s'"
  using run ret raise wait_raise retry
proof (induction zmq data flags copy track s rule: send_loop.induct)
  case (1 zmq data flags copy track s)
  note run = "1.prems"(1) and ret = "1.prems"(2) and raise = "1.prems"(3)
    and wait_raise = "1.prems"(4) and retry = "1.prems"(5)
  show ?case
  proof (cases "send_results s 0")
    case (Return m)
    with run ret [OF Return] show ?thesis
      by (auto simp: send_loop_return)
  next
    case (Raise e)
    show ?thesis
    proof (cases "e = EAGAIN zmq")
      case False
      with run raise [OF Raise False] Raise show ?thesis
        by (auto simp: send_loop_raise)
    next
      case True
      let ?s1 = "snd (native_send data flags copy track s)"
      from Raise True have again: "send_results s 0 = Raise (EAGAIN zmq)"
        by simp
      from run obtain x s2 where w: "wait_write zmq ?s1 = Some (x, s2)"
        by (auto simp: send_loop_again [OF again] split: option.splits)
      show ?thesis
      proof (cases x)
        case (Inl exn)
        with w run wait_raise [OF again, of exn s2] show ?thesis
          by (auto simp: send_loop_again [OF again])
      next
        case (Inr u)
        with w run have rest: "send_loop zmq data flags copy track s2 = Some (r, s')"
          by (simp add: send_loop_again [OF again])
        have "P s2 r s'"
          using Inr w rest Raise True ret raise wait_raise retry
          by (intro "1.IH" [of "Raise e" ?s1 e "(x, s2)" x s2 u])
             (simp_all add: native_send_def)
        with retry [OF again _ rest] w Inr show ?thesis
          by simp
      qed
    qed
  qed
qed

lemma recv_loop_run [consumes 1, case_names Return Raise Wait_raise Retry]:
  assumes run: "recv_loop zmq flags copy track s = Some (r, s')"
    and ret: "\<And>s m. recv_results s 0 = Return m \<Longrightarrow>
        P s (Inr m) (if \<not> in_recv_multipart s
                     then state_changed zmq (snd (native_recv flags copy track s))
                     else snd (native_recv flags copy track s))"
    and raise: "\<And>s e. recv_results s 0 = Raise e \<Longrightarrow> e \<noteq> EAGAIN zmq \<Longrightarrow>
        P s (Inl (ZMQError e)) (if \<not> in_recv_multipart s
                     then state_changed zmq (snd (native_recv flags copy track s))
                     else snd (native_recv flags copy track s))"
    and wait_raise: "\<And>s x s2. recv_results s 0 = Raise (EAGAIN zmq) \<Longrightarrow>
        wait_read zmq (snd (native_recv flags copy track s)) = Some (Inl x, s2) \<Longrightarrow>
        P s (Inl x) s2"
    and retry: "\<And>s s2 r s'. recv_results s 0 = Raise (EAGAIN zmq) \<Longrightarrow>
        wait_read zmq (snd (native_recv flags copy track s)) = Some (Inr (), s2) \<Longrightarrow>
        recv_loop zmq flags copy track s2 = Some (r, s') \<Longrightarrow> P s2 r s' \<Longrightarrow> P s r s'"
  shows "P s r s'"
  using run ret raise wait_raise retry
proof (induction zmq flags copy track s rule: recv_loop.induct)
  case (1 zmq flags copy track s)
  note run = "1.prems"(1) and ret = "1.prems"(2) and raise = "1.prems"(3)
    and wait_raise = "1.prems"(4) and retry = "1.prems"(5)
  show ?case
  proof (cases "recv_results s 0")
    case (Return m)
    with run ret [OF Return] show ?thesis
      by (auto simp: recv_loop_return)
  next
    case (Raise e)
    show ?thesis
    proof (cases "e = EAGAIN zmq")
      case False
      with run raise [OF Raise False] Raise show ?thesis
        by (auto simp: recv_loop_raise)
    next
      case True
      let ?s1 = "snd (native_recv flags copy track s)"
      from Raise True have again: "recv_results s 0 = Raise (EAGAIN zmq)"
        by simp
      from run obtain x s2 where w: "wait_read zmq ?s1 = Some (x, s2)"
        by (auto simp: recv_loop_again [OF again] split: option.splits)
      show ?thesis
      proof (cases x)
        case (Inl exn)
        with w run wait_raise [OF again, of exn s2] show ?thesis
          by (auto simp: recv_loop_again [OF again])
      next
        case (Inr u)
        with w run have rest: "recv_loop zmq flags copy track s2 = Some (r, s')"
          by (simp add: recv_loop_again [OF again])
        have "P s2 r s'"
          using Inr w rest Raise True ret raise wait_raise retry
          by (intro "1.IH" [of "Raise e" ?s1 e "(x, s2)" x s2 u])
             (simp_all add: native_recv_def)
        with retry [OF again _ rest] w Inr show ?thesis
          by simp
      qed
    qed
  qed
qed

lemma send_loop_keeps_ready:
  assumes "send_loop zmq data flags copy track s = Some (r, s')"
  shows "(ready (writable s) \<longrightarrow>
            r \<noteq> Inl AssertionError \<and> ready (writable s')
          \<or> (\<exists>e. r = Inl e \<and> e \<noteq> Timeout \<and> Throw e \<in> set (hub s) \<and> writable s' = Pending))
       \<and> (ready (readable s) \<longrightarrow> ready (readable s'))
       \<and> set (hub s') \<subseteq> set (hub s)"
  using assms
proof (induction rule: send_loop_run)
  case (Return s m)
  then show ?case
    by (auto simp: native_send_frame state_changed_frame intro!: ready_state_changed)
next
  case (Raise s e)
  then show ?case
    by (auto simp: native_send_frame state_changed_frame intro!: ready_state_changed)
next
  case (Wait_raise s x s2)
  let ?s1 = "snd (native_send data flags copy track s)"
  from wait_write_frame [OF Wait_raise(2)]
  have other: "ready (readable s) \<longrightarrow> ready (readable s2)" "set (hub s2) \<subseteq> set (hub s)"
    by (simp_all add: native_send_frame)
  have "Inl x \<noteq> Inl AssertionError \<and> ready (writable s2)
      \<or> (\<exists>e. Inl x = Inl e \<and> e \<noteq> Timeout \<and> Throw e \<in> set (hub s) \<and> writable s2 = Pending)"
    if "ready (writable s)"
  proof -
    from that have "ready (writable ?s1)"
      by (simp add: native_send_frame)
    from wait_write_result [OF this Wait_raise(2)] show ?thesis
      by (auto simp: ready_def native_send_frame)
  qed
  with other show ?case
    by blast
next
  case (Retry s s2 r s')
  let ?s1 = "snd (native_send data flags copy track s)"
  from wait_write_frame [OF Retry(2)]
  have other: "ready (readable s) \<longrightarrow> ready (readable s2)" "set (hub s2) \<subseteq> set (hub s)"
    by (simp_all add: native_send_frame)
  have "ready (writable s2)" if "ready (writable s)"
  proof -
    from that have "ready (writable ?s1)"
      by (simp add: native_send_frame)
    from wait_write_result [OF this Retry(2)] show ?thesis
      by (auto simp: ready_def)
  qed
  with other Retry.IH show ?case
    by blast
qed

lemma recv_loop_keeps_ready:
  assumes "recv_loop zmq flags copy track s = Some (r, s')"
  shows "(ready (readable s) \<longrightarrow>
            r \<noteq> Inl AssertionError \<and> ready (readable s')
          \<or> (\<exists>e. r = Inl e \<and> Throw e \<in> set (hub s) \<and> readable s' = Pending))
       \<and> (ready (writable s) \<longrightarrow> ready (writable s'))
       \<and> set (hub s') \<subseteq> set (hub s)"
  using assms
proof (induction rule: recv_loop_run)
  case (Return s m)
  then show ?case
    by (auto simp: native_recv_frame state_changed_frame intro!: ready_state_changed)
next
  case (Raise s e)
  then show ?case
    by (auto simp: native_recv_frame state_changed_frame intro!: ready_state_changed)
next
  case (Wait_raise s x s2)
  let ?s1 = "snd (native_recv flags copy track s)"
  from wait_read_frame [OF Wait_raise(2)]
  have other: "ready (writable s) \<longrightarrow> ready (writable s2)" "set (hub s2) \<subseteq> set (hub s)"
    by (simp_all add: native_recv_frame)
  have "Inl x \<noteq> Inl AssertionError \<and> ready (readable s2)
      \<or> (\<exists>e. Inl x = Inl e \<and> Throw e \<in> set (hub s) \<and> readable s2 = Pending)"
    if "ready (readable s)"
  proof -
    from that have "ready (readable ?s1)"
      by (simp add: native_recv_frame)
    from wait_read_result [OF this Wait_raise(2)] show ?thesis
      by (auto simp: ready_def native_recv_frame)
  qed
  with other show ?case
    by blast
next
  case (Retry s s2 r s')
  let ?s1 = "snd (native_recv flags copy track s)"
  from wait_read_frame [OF Retry(2)]
  have other: "ready (writable s) \<longrightarrow> ready (writable s2)" "set (hub s2) \<subseteq> set (hub s)"
    by (simp_all add: native_recv_frame)
  have "ready (readable s2)" if "ready (readable s)"
  proof -
    from that have "ready (readable ?s1)"
      by (simp add: native_recv_frame)
    from wait_read_result [OF this Retry(2)] show ?thesis
      by (auto simp: ready_def)
  qed
  with other Retry.IH show ?case
    by blast
qed

lemma send_keeps_ready:
  assumes "send zmq data flags copy track s = Some (r, s')"
  shows "(ready (writable s) \<longrightarrow>
            r \<noteq> Inl AssertionError \<and> ready (writable s')
          \<or> (\<exists>e. r = Inl e \<and> e \<noteq> Timeout \<and> Throw e \<in> set (hub s) \<and> writable s' = Pending))
       \<and> (ready (readable s) \<longrightarrow> ready (readable s'))"
proof (cases "flags AND NOBLOCK zmq \<noteq> 0")
  case True
  from assms show ?thesis
    unfolding send_noblock [OF True]
    by (auto simp: native_send_frame intro!: ready_state_changed split: outcome.splits)
next
  case False
  with assms have "send_loop zmq data (flags OR NOBLOCK zmq) copy track s = Some (r, s')"
    by (simp add: send_def)
  from send_loop_keeps_ready [OF this] show ?thesis
    by blast
qed

lemma recv_keeps_ready:
  assumes "recv zmq flags copy track s = Some (r, s')"
  shows "(ready (readable s) \<longrightarrow>
            r \<noteq> Inl AssertionError \<and> ready (readable s')
          \<or> (\<exists>e. r = Inl e \<and> Throw e \<in> set (hub s) \<and> readable s' = Pending))
       \<and> (ready (writable s) \<longrightarrow> ready (writable s'))"
proof (cases "flags AND NOBLOCK zmq \<noteq> 0")
  case True
  from assms show ?thesis
    unfolding recv_noblock [OF True]
    by (auto simp: native_recv_frame intro!: ready_state_changed split: outcome.splits)
next
  case False
  with assms have "recv_loop zmq (flags OR NOBLOCK zmq) copy track s = Some (r, s')"
    by (simp add: recv_def)
  from recv_loop_keeps_ready [OF this] show ?thesis
    by blast
qed

lemma send_blocked_on_pending:
  assumes "flags AND NOBLOCK zmq = 0" and "send_results s 0 = Raise (EAGAIN zmq)"
    and "\<not> ready (writable s)"
  shows "send zmq data flags copy track s =
    Some (Inl AssertionError, snd (native_send data (flags OR NOBLOCK zmq) copy track s))"
  using assms
  by (simp add: send_def send_loop_again wait_write_assert native_send_frame)

lemma recv_blocked_on_pending:
  assumes "flags AND NOBLOCK zmq = 0" and "recv_results s 0 = Raise (EAGAIN zmq)"
    and "\<not> ready (readable s)"
  shows "recv zmq flags copy track s =
    Some (Inl AssertionError, snd (native_recv (flags OR NOBLOCK zmq) copy track s))"
  using assms
  by (simp add: recv_def recv_loop_again wait_read_assert native_recv_frame)

lemma wait_read_interrupted:
  assumes "ready (readable s)" and "hub s = Throw e # h"
  shows "wait_read zmq s = Some (Inl e, s\<lparr>readable := Pending, hub := h\<rparr>)"
  using assms by (simp add: wait_read_begin get_throw cell_of_def)

lemma wait_write_interrupted:
  assumes "ready (writable s)" and "hub s = Throw e # h" and "e \<noteq> Timeout"
  shows "wait_write zmq s = Some (Inl e, s\<lparr>writable := Pending, hub := h\<rparr>)"
  using assms by (cases e) (simp_all add: wait_write_begin get_throw cell_of_def)

lemma recv_interrupted:
  assumes "ready (readable s)" and "flags AND NOBLOCK zmq = 0"
    and "recv_results s 0 = Raise (EAGAIN zmq)" and "hub s = Throw e # h"
  shows "recv zmq flags copy track s =
    Some (Inl e, (snd (native_recv (flags OR NOBLOCK zmq) copy track s))\<lparr>readable := Pending, hub := h\<rparr>)"
proof -
  let ?s1 = "snd (native_recv (flags OR NOBLOCK zmq) copy track s)"
  have "wait_read zmq ?s1 = Some (Inl e, ?s1\<lparr>readable := Pending, hub := h\<rparr>)"
    using assms by (intro wait_read_interrupted) (simp_all add: native_recv_frame)
  with assms show ?thesis
    by (simp add: recv_def recv_loop_again)
qed

lemma send_interrupted:
  assumes "ready (writable s)" and "flags AND NOBLOCK zmq = 0"
    and "send_results s 0 = Raise (EAGAIN zmq)" and "hub s = Throw e # h" and "e \<noteq> Timeout"
  shows "send zmq data flags copy track s =
    Some (Inl e, (snd (native_send data (flags OR NOBLOCK zmq) copy track s))\<lparr>writable := Pending, hub := h\<rparr>)"
proof -
  let ?s1 = "snd (native_send data (flags OR NOBLOCK zmq) copy track s)"
  have "wait_write zmq ?s1 = Some (Inl e, ?s1\<lparr>writable := Pending, hub := h\<rparr>)"
    using assms by (intro wait_write_interrupted) (simp_all add: native_send_frame)
  with assms show ?thesis
    by (simp add: send_def send_loop_again)
qed

text \<open>
  C8. Both \<^verbatim>\<open>_wait_write\<close> and \<^verbatim>\<open>_wait_read\<close> assert that their cell is ready before they
  replace it: begun on a pending cell, the wait raises \<^verbatim>\<open>AssertionError\<close> at once and changes
  nothing, and the retry loop of \<^verbatim>\<open>send\<close> and \<^verbatim>\<open>recv\<close> does not handle it: it reaches the
  caller. A wait, a send or a recv begun on a ready cell does not raise \<^verbatim>\<open>AssertionError\<close> and
  leaves the cell ready when it exits, with one exception: when an exception is thrown into
  the parked greenlet (an enclosing \<^verbatim>\<open>gevent.Timeout\<close>, a kill), the wait exits with that
  exception and leaves its cell pending, since \<^verbatim>\<open>_wait_read\<close> has no handler and
  \<^verbatim>\<open>_wait_write\<close> handles \<^verbatim>\<open>gevent.Timeout\<close> only. The calls of the other direction and the
  callback never make a ready cell pending. So a single task, the only user of the socket,
  trips the assertion: its blocking \<^verbatim>\<open>recv\<close> would block and is interrupted while parked, and
  its next blocking \<^verbatim>\<open>recv\<close>, which would block too, raises \<^verbatim>\<open>AssertionError\<close>; likewise for
  \<^verbatim>\<open>send\<close> and an exception other than \<^verbatim>\<open>gevent.Timeout\<close>.
\<close>

theorem interrupted_wait_trips_assertion:
  "(\<not> ready (writable s) \<longrightarrow> wait_write zmq s = Some (Inl AssertionError, s))
   \<and> (\<not> ready (readable s) \<longrightarrow> wait_read zmq s = Some (Inl AssertionError, s))
   \<and> (\<not> ready (writable s) \<and> flags AND NOBLOCK zmq = 0 \<and> send_results s 0 = Raise (EAGAIN zmq)
        \<longrightarrow> map_option fst (send zmq data flags copy track s) = Some (Inl AssertionError))
   \<and> (\<not> ready (readable s) \<and> flags AND NOBLOCK zmq = 0 \<and> recv_results s 0 = Raise (EAGAIN zmq)
        \<longrightarrow> map_option fst (recv zmq flags copy track s) = Some (Inl AssertionError))
   \<and> (ready (writable s) \<and> wait_write zmq s = Some (w, s1)
        \<longrightarrow> w \<noteq> Inl AssertionError \<and> ready (writable s1)
          \<or> (\<exists>e. w = Inl e \<and> e \<noteq> Timeout \<and> Throw e \<in> set (hub s) \<and> writable s1 = Pending))
   \<and> (ready (readable s) \<and> wait_read zmq s = Some (w, s1)
        \<longrightarrow> w \<noteq> Inl AssertionError \<and> ready (readable s1)
          \<or> (\<exists>e. w = Inl e \<and> Throw e \<in> set (hub s) \<and> readable s1 = Pending))
   \<and> (ready (writable s) \<and> send zmq data flags copy track s = Some (r, s2)
        \<longrightarrow> r \<noteq> Inl AssertionError \<and> ready (writable s2)
          \<or> (\<exists>e. r = Inl e \<and> e \<noteq> Timeout \<and> Throw e \<in> set (hub s) \<and> writable s2 = Pending))
   \<and> (ready (readable s) \<and> recv zmq flags copy track s = Some (r, s2)
        \<longrightarrow> r \<noteq> Inl AssertionError \<and> ready (readable s2)
          \<or> (\<exists>e. r = Inl e \<and> Throw e \<in> set (hub s) \<and> readable s2 = Pending))
   \<and> (ready (readable s) \<and> send zmq data flags copy track s = Some (r, s2)
        \<longrightarrow> ready (readable s2))
   \<and> (ready (writable s) \<and> recv zmq flags copy track s = Some (r, s2)
        \<longrightarrow> ready (writable s2))
   \<and> (ready (writable s) \<longrightarrow> ready (writable (state_changed zmq s)))
   \<and> (ready (readable s) \<longrightarrow> ready (readable (state_changed zmq s)))
   \<and> (ready (readable s) \<and> flags AND NOBLOCK zmq = 0 \<and> hub s = Throw e # h
        \<and> recv_results s 0 = Raise (EAGAIN zmq) \<and> recv_results s 1 = Raise (EAGAIN zmq)
        \<longrightarrow> (\<exists>u. recv zmq flags copy track s = Some (Inl e, u) \<and> readable u = Pending
                 \<and> hub u = h \<and> closed u = closed s
                 \<and> map_option fst (recv zmq flags copy track u) = Some (Inl AssertionError)))
   \<and> (ready (writable s) \<and> flags AND NOBLOCK zmq = 0 \<and> hub s = Throw e # h \<and> e \<noteq> Timeout
        \<and> send_results s 0 = Raise (EAGAIN zmq) \<and> send_results s 1 = Raise (EAGAIN zmq)
        \<longrightarrow> (\<exists>u. send zmq data flags copy track s = Some (Inl e, u) \<and> writable u = Pending
                 \<and> hub u = h \<and> closed u = closed s
                 \<and> map_option fst (send zmq data flags copy track u) = Some (Inl AssertionError)))"
proof (intro conjI impI)
  show "wait_write zmq s = Some (Inl AssertionError, s)" if "\<not> ready (writable s)"
    using that by (rule wait_write_assert)
  show "wait_read zmq s = Some (Inl AssertionError, s)" if "\<not> ready (readable s)"
    using that by (rule wait_read_assert)
  show "map_option fst (send zmq data flags copy track s) = Some (Inl AssertionError)"
    if "\<not> ready (writable s) \<and> flags AND NOBLOCK zmq = 0 \<and> send_results s 0 = Raise (EAGAIN zmq)"
    using that by (simp add: send_blocked_on_pending)
  show "map_option fst (recv zmq flags copy track s) = Some (Inl AssertionError)"
    if "\<not> ready (readable s) \<and> flags AND NOBLOCK zmq = 0 \<and> recv_results s 0 = Raise (EAGAIN zmq)"
    using that by (simp add: recv_blocked_on_pending)
  show "w \<noteq> Inl AssertionError \<and> ready (writable s1)
      \<or> (\<exists>e. w = Inl e \<and> e \<noteq> Timeout \<and> Throw e \<in> set (hub s) \<and> writable s1 = Pending)"
    if "ready (writable s) \<and> wait_write zmq s = Some (w, s1)"
    using that wait_write_result [of s zmq w s1] by (auto simp: ready_def)
  show "w \<noteq> Inl AssertionError \<and> ready (readable s1)
      \<or> (\<exists>e. w = Inl e \<and> Throw e \<in> set (hub s) \<and> readable s1 = Pending)"
    if "ready (readable s) \<and> wait_read zmq s = Some (w, s1)"
    using that wait_read_result [of s zmq w s1] by (auto simp: ready_def)
  show "r \<noteq> Inl AssertionError \<and> ready (writable s2)
      \<or> (\<exists>e. r = Inl e \<and> e \<noteq> Timeout \<and> Throw e \<in> set (hub s) \<and> writable s2 = Pending)"
    if "ready (writable s) \<and> send zmq data flags copy track s = Some (r, s2)"
    using that send_keeps_ready [of zmq data flags copy track s r s2] by simp
  show "r \<noteq> Inl AssertionError \<and> ready (readable s2)
      \<or> (\<exists>e. r = Inl e \<and> Throw e \<in> set (hub s) \<and> readable s2 = Pending)"
    if "ready (readable s) \<and> recv zmq flags copy track s = Some (r, s2)"
    using that recv_keeps_ready [of zmq flags copy track s r s2] by simp
  show "ready (readable s2)"
    if "ready (readable s) \<and> send zmq data flags copy track s = Some (r, s2)"
    using that send_keeps_ready [of zmq data flags copy track s r s2] by simp
  show "ready (writable s2)"
    if "ready (writable s) \<and> recv zmq flags copy track s = Some (r, s2)"
    using that recv_keeps_ready [of zmq flags copy track s r s2] by simp
  show "ready (writable (state_changed zmq s))" if "ready (writable s)"
    using that by (rule ready_state_changed)
  show "ready (readable (state_changed zmq s))" if "ready (readable s)"
    using that by (rule ready_state_changed)
  show "\<exists>u. recv zmq flags copy track s = Some (Inl e, u) \<and> readable u = Pending
           \<and> hub u = h \<and> closed u = closed s
           \<and> map_option fst (recv zmq flags copy track u) = Some (Inl AssertionError)"
    if a: "ready (readable s) \<and> flags AND NOBLOCK zmq = 0 \<and> hub s = Throw e # h
        \<and> recv_results s 0 = Raise (EAGAIN zmq) \<and> recv_results s 1 = Raise (EAGAIN zmq)"
  proof -
    let ?u = "(snd (native_recv (flags OR NOBLOCK zmq) copy track s))\<lparr>readable := Pending, hub := h\<rparr>"
    from a have first: "recv zmq flags copy track s = Some (Inl e, ?u)"
      by (intro recv_interrupted) simp_all
    from a have "recv zmq flags copy track ?u =
        Some (Inl AssertionError, snd (native_recv (flags OR NOBLOCK zmq) copy track ?u))"
      by (intro recv_blocked_on_pending) (simp_all add: native_recv_frame ready_def)
    with first show ?thesis
      by (simp add: native_recv_frame)
  qed
  show "\<exists>u. send zmq data flags copy track s = Some (Inl e, u) \<and> writable u = Pending
           \<and> hub u = h \<and> closed u = closed s
           \<and> map_option fst (send zmq data flags copy track u) = Some (Inl AssertionError)"
    if a: "ready (writable s) \<and> flags AND NOBLOCK zmq = 0 \<and> hub s = Throw e # h \<and> e \<noteq> Timeout
        \<and> send_results s 0 = Raise (EAGAIN zmq) \<and> send_results s 1 = Raise (EAGAIN zmq)"
  proof -
    let ?u = "(snd (native_send data (flags OR NOBLOCK zmq) copy track s))\<lparr>writable := Pending, hub := h\<rparr>"
    from a have first: "send zmq data flags copy track s = Some (Inl e, ?u)"
      by (intro send_interrupted) simp_all
    from a have "send zmq data flags copy track ?u =
        Some (Inl AssertionError, snd (native_send data (flags OR NOBLOCK zmq) copy track ?u))"
      by (intro send_blocked_on_pending) (simp_all add: native_send_frame ready_def)
    with first show ?thesis
      by (simp add: native_send_frame)
  qed
qed

lemma parked_fields:
  "readable parked = Pending" "writable parked = Pending"
  "send_results parked n = Raise 11" "recv_results parked n = Raise 11"
  by (simp_all add: parked_def starved_def idle_def)

lemma interrupted_fields:
  "readable interrupted = Value" "writable interrupted = Value"
  "send_results interrupted n = Raise 11" "recv_results interrupted n = Raise 11"
  "hub interrupted = [Throw Timeout]" "closed interrupted = False"
  by (simp_all add: interrupted_def starved_def idle_def)

theorem interrupted_wait_trips_assertion_witness:
  "\<not> ready (writable parked) \<and> \<not> ready (readable parked)
   \<and> (0::int) AND NOBLOCK zmq_h = 0
   \<and> send_results parked 0 = Raise (EAGAIN zmq_h) \<and> recv_results parked 0 = Raise (EAGAIN zmq_h)
   \<and> wait_write zmq_h parked = Some (Inl AssertionError, parked)
   \<and> wait_read zmq_h parked = Some (Inl AssertionError, parked)
   \<and> map_option fst (send zmq_h ''ping'' 0 True False parked) = Some (Inl AssertionError)
   \<and> map_option fst (recv zmq_h 0 True False parked) = Some (Inl AssertionError)
   \<and> ready (writable starved) \<and> ready (readable starved)
   \<and> map_option fst (wait_write zmq_h (starved\<lparr>hub := [Tick]\<rparr>)) = Some (Inr ())
   \<and> map_option (ready \<circ> writable \<circ> snd) (wait_write zmq_h (starved\<lparr>hub := [Tick]\<rparr>)) = Some True
   \<and> ready (writable (state_changed zmq_h starved))
   \<and> ready (readable (state_changed zmq_h starved))
   \<and> ready (readable interrupted) \<and> hub interrupted = [Throw Timeout]
   \<and> recv_results interrupted 0 = Raise (EAGAIN zmq_h)
   \<and> recv_results interrupted 1 = Raise (EAGAIN zmq_h)
   \<and> map_option fst (recv zmq_h 0 True False interrupted) = Some (Inl Timeout)
   \<and> map_option (readable \<circ> snd) (recv zmq_h 0 True False interrupted) = Some Pending
   \<and> Option.bind (recv zmq_h 0 True False interrupted)
        (\<lambda>(r, u). map_option fst (recv zmq_h 0 True False u)) = Some (Inl AssertionError)"
proof -
  let ?t = "starved\<lparr>hub := [Tick]\<rparr>"
  have run: "wait_write zmq_h ?t = Some (Inr (), starved)"
    by (simp add: wait_write_def ready_def AsyncResult_def set_value_def starved_def idle_def
        get_tick_timeout cell_of_def)
  from interrupted_wait_trips_assertion [where s = interrupted and zmq = zmq_h and flags = 0
      and e = Timeout and h = "[]" and copy = True and track = False and data = "''ping''"
      and w = "Inr ()" and ?s1.0 = starved and r = "Inr ''ping''" and ?s2.0 = starved]
  have "\<exists>u. recv zmq_h 0 True False interrupted = Some (Inl Timeout, u) \<and> readable u = Pending
      \<and> hub u = [] \<and> closed u = closed interrupted
      \<and> map_option fst (recv zmq_h 0 True False u) = Some (Inl AssertionError)"
    by (simp add: interrupted_fields zmq_h_fields ready_def)
  then obtain u where u: "recv zmq_h 0 True False interrupted = Some (Inl Timeout, u)"
      "readable u = Pending"
      "map_option fst (recv zmq_h 0 True False u) = Some (Inl AssertionError)"
    by blast
  from interrupted_wait_trips_assertion [of parked zmq_h 0 "''ping''" True False]
    interrupted_wait_trips_assertion [of ?t zmq_h 0 "''ping''" True False "Inr ()" starved]
    interrupted_wait_trips_assertion [of starved zmq_h]
    run u
  show ?thesis
    by (simp add: parked_fields starved_fields interrupted_fields zmq_h_fields ready_def)
qed

subsection \<open>Multipart batches\<close>









subsection \<open>The retry loops\<close>


































end
